(* ===== verification/Pangu_Prelude.thy ===== *)
theory Pangu_Prelude
  imports Main "HOL-Library.Word" "HOL-Library.AList" "HOL-Library.Multiset" "HOL-Library.Monad_Syntax"
begin

text \<open>
  Vocabulary shared by every component of the development: the fixed-width types of the Go
  sources, the value that stands for a run-time panic, Go maps, and the generic facts on
  lists, maps and words that the component proofs use.

  \<^item> \<open>uint64\<close>, \<open>byte\<close>, \<open>common.Address\<close> (20 bytes) and \<open>common.Hash\<close> (32 bytes) are words of the
    width the source gives them, so that \<open>+\<close>, \<open>-\<close> and \<open>*\<close> wrap as they do in Go. The byte-wise
    comparison of two addresses or hashes (big endian) is the order of the words.
    \<open>*big.Int\<close> is \<open>int\<close>.
  \<^item> A Go map is an association list with distinct keys (\<open>gm_wf\<close>). Go does not specify the
    order in which \<open>range\<close> visits a map; a model value carries one order, the order of the
    list, and theorems quantify over the map, hence over the order.
  \<^item> A run-time panic is a value: \<open>None\<close>, or a \<open>go_panic\<close> where the reason matters.
\<close>

type_synonym u8 = "8 word"
type_synonym u64 = "64 word"
type_synonym address = "160 word"
type_synonym hash = "256 word"
type_synonym bytes = "8 word list"

type_synonym ('k, 'v) gomap = "('k \<times> 'v) list"

datatype go_panic = PanicIndexOutOfRange | PanicNilDereference | PanicMessage string

named_theorems gomap_simps \<open>reading a Go map after a write\<close>
named_theorems wf_intros \<open>preservation of well-formedness, one rule per operation\<close>

lemma unat_inc: "a < b \<Longrightarrow> unat (a + 1) = Suc (unat a)" for a b :: "'a::len word"
proof -
  assume "a < b"
  then have "Suc (unat a) \<le> unat b" by (simp add: word_less_nat_alt)
  also have "unat b < 2 ^ LENGTH('a)" by (rule unsigned_less)
  finally show ?thesis by (simp add: unat_word_ariths)
qed

subsection \<open>Go maps\<close>

abbreviation gm_wf :: "('k, 'v) gomap \<Rightarrow> bool" where
  "gm_wf m \<equiv> distinct (map fst m)"

abbreviation gm_put :: "'k \<Rightarrow> 'v \<Rightarrow> ('k, 'v) gomap \<Rightarrow> ('k, 'v) gomap" where
  "gm_put \<equiv> AList.update"

abbreviation gm_del :: "'k \<Rightarrow> ('k, 'v) gomap \<Rightarrow> ('k, 'v) gomap" where
  "gm_del \<equiv> AList.delete"

lemma gm_get_put [gomap_simps]: "map_of (gm_put k v m) j = (if j = k then Some v else map_of m j)"
  by (simp add: update_conv')

lemma gm_get_del [gomap_simps]: "map_of (gm_del k m) j = (if j = k then None else map_of m j)"
  by (simp add: delete_conv')

lemma gm_wf_put [wf_intros]: "gm_wf m \<Longrightarrow> gm_wf (gm_put k v m)"
  by (rule distinct_update)

lemma gm_wf_del [wf_intros]: "gm_wf m \<Longrightarrow> gm_wf (gm_del k m)"
  by (rule distinct_delete)

lemma gm_put_new: "map_of m k = None \<Longrightarrow> gm_put k v m = m @ [(k, v)]"
  by (induction m) (auto split: if_splits)

lemma gm_put_old:
  assumes "gm_wf m" "map_of m k = Some i"
  obtains xs ys where "m = xs @ (k, i) # ys" "k \<notin> fst ` set xs" "k \<notin> fst ` set ys"
    "\<And>v. gm_put k v m = xs @ (k, v) # ys"
proof -
  from assms(2) obtain xs ys where m: "m = xs @ (k, i) # ys"
    by (meson map_of_SomeD split_list)
  with assms(1) have xs: "k \<notin> fst ` set xs" and ys: "k \<notin> fst ` set ys"
    by auto
  have "gm_put k v (xs @ (k, i) # ys) = xs @ (k, v) # ys" for v
    using xs by (induction xs) auto
  with m xs ys that show thesis by blast
qed

lemma gm_put_same: "map_of m k = Some v \<Longrightarrow> gm_put k v m = m"
  by (induction m) (auto split: if_splits)

lemma gm_put_twice: "gm_put k v (gm_put k w m) = gm_put k v m"
  by (induction m) auto

lemma gm_del_put_new: "map_of m k = None \<Longrightarrow> gm_del k (gm_put k v m) = m"
  by (induction m) (auto split: if_splits)

lemma gm_del_absent: "map_of m k = None \<Longrightarrow> gm_del k m = m"
  by (induction m) (auto split: if_splits)

subsection \<open>Sequences of operations and their specification\<close>

text \<open>
  A component whose operations may panic (\<open>None\<close>) is run over a list of operations. The
  interface \<open>op_refinement\<close> says that each operation, from a state that satisfies the
  invariant, returns, keeps the invariant and does on the abstract value what its
  specification says; then so does every sequence of operations.
\<close>

fun run_ops :: "('op \<Rightarrow> 's \<Rightarrow> 's option) \<Rightarrow> 'op list \<Rightarrow> 's \<Rightarrow> 's option" where
  "run_ops exec [] s = Some s"
| "run_ops exec (op # ops) s = do { s' \<leftarrow> exec op s; run_ops exec ops s' }"

locale op_refinement =
  fixes exec :: "'op \<Rightarrow> 's \<Rightarrow> 's option"
    and spec :: "'op \<Rightarrow> 'a \<Rightarrow> 'a"
    and abs :: "'s \<Rightarrow> 'a"
    and inv :: "'s \<Rightarrow> bool"
  assumes step: "inv s \<Longrightarrow> \<exists>s'. exec op s = Some s' \<and> inv s' \<and> abs s' = spec op (abs s)"
begin

lemma run_refines:
  "inv s \<Longrightarrow> \<exists>s'. run_ops exec ops s = Some s' \<and> inv s' \<and> abs s' = fold spec ops (abs s)"
proof (induction ops arbitrary: s)
  case (Cons op ops)
  from step[OF Cons.prems] obtain s1 where
    s1: "exec op s = Some s1" "inv s1" "abs s1 = spec op (abs s)" by blast
  with Cons.IH[OF s1(2)] show ?case by auto
qed simp

end

end
