(* ===== verification/AVLTree.thy ===== *)
theory AVLTree
  imports Pangu_Prelude
begin

text \<open>
  The cost index of the transaction pool, \<^verbatim>\<open>core/txpool/legacypool/avl.go\<close>: a balanced search tree
  from nonces to costs in which every node caches the sum of the costs below it, so that
  \<open>Search\<close> returns the total cost of all transactions up to a nonce. A nil \<open>*AVLNode\<close> is \<open>ANil\<close>;
  dereferencing nil is a panic, the value \<open>None\<close> of the operations that could do it. The big
  integers of a node are never shared between nodes, so the in-place \<open>Sub\<close> and \<open>Add\<close> of the
  rotations are updates of one node.
\<close>

datatype AVLNode =
    ANil
  | AVLNode (key: u64) (val: int) (nsum: int) (nheight: int) (left: AVLNode) (right: AVLNode)

subsection \<open>Node operations\<close>

fun getHeight :: "AVLNode \<Rightarrow> int" where
  "getHeight ANil = 0"
| "getHeight (AVLNode k v s h l r) = h"

text \<open>The guarded read \<open>if n.left != nil { ... n.left.sum }\<close>.\<close>

fun getSum :: "AVLNode \<Rightarrow> int" where
  "getSum ANil = 0"
| "getSum (AVLNode k v s h l r) = s"

definition max_int :: "int \<Rightarrow> int \<Rightarrow> int" where
  "max_int a b = (if a > b then a else b)"

fun recalculateHeight :: "AVLNode \<Rightarrow> AVLNode" where
  "recalculateHeight ANil = ANil"
| "recalculateHeight (AVLNode k v s h l r) =
     AVLNode k v s (1 + max_int (getHeight l) (getHeight r)) l r"

text \<open>The last lines of \<open>add\<close> and \<open>remove\<close>: the sum of a node from its value and its children.\<close>

fun recalculateSum :: "AVLNode \<Rightarrow> AVLNode" where
  "recalculateSum ANil = ANil"
| "recalculateSum (AVLNode k v s h l r) = AVLNode k v (v + getSum l + getSum r) h l r"

fun rotateLeft :: "AVLNode \<Rightarrow> AVLNode option" where
  "rotateLeft (AVLNode k v s h l (AVLNode rk rv rs rh rl rr)) =
     (let n = recalculateHeight (AVLNode k v (s - rs + getSum rl) h l rl)
      in Some (recalculateHeight (AVLNode rk rv s rh n rr)))"
| "rotateLeft _ = None"

fun rotateRight :: "AVLNode \<Rightarrow> AVLNode option" where
  "rotateRight (AVLNode k v s h (AVLNode lk lv ls lh ll lr) r) =
     (let n = recalculateHeight (AVLNode k v (s - ls + getSum lr) h lr r)
      in Some (recalculateHeight (AVLNode lk lv s lh ll n)))"
| "rotateRight _ = None"

fun heightLeft :: "AVLNode \<Rightarrow> int option" where
  "heightLeft ANil = None"
| "heightLeft (AVLNode k v s h l r) = Some (getHeight l)"

fun heightRight :: "AVLNode \<Rightarrow> int option" where
  "heightRight ANil = None"
| "heightRight (AVLNode k v s h l r) = Some (getHeight r)"

fun rebalanceTree :: "AVLNode \<Rightarrow> AVLNode option" where
  "rebalanceTree ANil = Some ANil"
| "rebalanceTree (AVLNode k v s h l r) =
     (let h' = 1 + max_int (getHeight l) (getHeight r);
          balanceFactor = getHeight l - getHeight r
      in if balanceFactor = -2 then
           do { rl \<leftarrow> heightLeft r; rr \<leftarrow> heightRight r;
                r' \<leftarrow> (if rl > rr then rotateRight r else Some r);
                rotateLeft (AVLNode k v s h' l r') }
         else if balanceFactor = 2 then
           do { lr \<leftarrow> heightRight l; ll \<leftarrow> heightLeft l;
                l' \<leftarrow> (if lr > ll then rotateLeft l else Some l);
                rotateRight (AVLNode k v s h' l' r) }
         else Some (AVLNode k v s h' l r))"

fun node_add :: "u64 \<Rightarrow> int \<Rightarrow> AVLNode \<Rightarrow> AVLNode option" where
  "node_add k v ANil = Some (AVLNode k v v 1 ANil ANil)"
| "node_add k v (AVLNode nk nv ns nh l r) =
     do { n \<leftarrow> (if k < nk then do { l' \<leftarrow> node_add k v l; Some (AVLNode nk nv ns nh l' r) }
               else if k > nk then do { r' \<leftarrow> node_add k v r; Some (AVLNode nk nv ns nh l r') }
               else Some (AVLNode nk v ns nh l r));
          rebalanceTree (recalculateSum n) }"

fun findSmallest :: "AVLNode \<Rightarrow> AVLNode option" where
  "findSmallest ANil = None"
| "findSmallest (AVLNode k v s h l r) =
     (if l \<noteq> ANil then findSmallest l else Some (AVLNode k v s h l r))"

fun findLargest :: "AVLNode \<Rightarrow> AVLNode option" where
  "findLargest ANil = None"
| "findLargest (AVLNode k v s h l r) =
     (if r \<noteq> ANil then findLargest r else Some (AVLNode k v s h l r))"

fun node_remove :: "u64 \<Rightarrow> AVLNode \<Rightarrow> AVLNode option" where
  "node_remove k ANil = Some ANil"
| "node_remove k (AVLNode nk nv ns nh l r) =
     (if k < nk then
        do { l' \<leftarrow> node_remove k l; rebalanceTree (recalculateSum (AVLNode nk nv ns nh l' r)) }
      else if k > nk then
        do { r' \<leftarrow> node_remove k r; rebalanceTree (recalculateSum (AVLNode nk nv ns nh l r')) }
      else if l \<noteq> ANil \<and> r \<noteq> ANil then
        do { m \<leftarrow> findSmallest r;
             r' \<leftarrow> node_remove (key m) r;
             rebalanceTree (recalculateSum (AVLNode (key m) (val m) ns nh l r')) }
      else if l \<noteq> ANil then rebalanceTree (recalculateSum l)
      else if r \<noteq> ANil then rebalanceTree (recalculateSum r)
      else Some ANil)"

fun node_search :: "u64 \<Rightarrow> AVLNode \<Rightarrow> AVLNode \<times> int" where
  "node_search k ANil = (ANil, 0)"
| "node_search k (AVLNode nk nv ns nh l r) =
     (if k < nk then node_search k l
      else if k > nk then
        (let (node, sum) = node_search k r in (node, sum + getSum l + nv))
      else (AVLNode nk nv ns nh l r, nv + getSum l))"

fun displayNodesInOrder :: "AVLNode \<Rightarrow> AVLNode list \<Rightarrow> AVLNode list" where
  "displayNodesInOrder ANil nodes = nodes"
| "displayNodesInOrder (AVLNode k v s h l r) nodes =
     (let nodes1 = (if l \<noteq> ANil then displayNodesInOrder l nodes else nodes);
          nodes2 = nodes1 @ [AVLNode k v s h l r]
      in if r \<noteq> ANil then displayNodesInOrder r nodes2 else nodes2)"

subsection \<open>The tree\<close>

record AVLTree =
  root :: AVLNode

datatype avl_error = ErrEmptyTree

definition AVL_Add :: "u64 \<Rightarrow> int \<Rightarrow> AVLTree \<Rightarrow> AVLTree option" where
  "AVL_Add k v t = do { n \<leftarrow> node_add k v (root t); Some (t\<lparr>root := n\<rparr>) }"

definition AVL_Remove :: "u64 \<Rightarrow> AVLTree \<Rightarrow> AVLTree option" where
  "AVL_Remove k t = do { n \<leftarrow> node_remove k (root t); Some (t\<lparr>root := n\<rparr>) }"

definition AVL_Update :: "u64 \<Rightarrow> u64 \<Rightarrow> int \<Rightarrow> AVLTree \<Rightarrow> AVLTree option" where
  "AVL_Update oldKey newKey newValue t = do { t' \<leftarrow> AVL_Remove oldKey t; AVL_Add newKey newValue t' }"

definition AVL_Search :: "u64 \<Rightarrow> AVLTree \<Rightarrow> AVLNode \<times> int" where
  "AVL_Search k t = node_search k (root t)"

definition AVL_Smallest :: "AVLTree \<Rightarrow> avl_error + u64" where
  "AVL_Smallest t = (case findSmallest (root t) of None \<Rightarrow> Inl ErrEmptyTree | Some n \<Rightarrow> Inr (key n))"

definition AVL_Largest :: "AVLTree \<Rightarrow> avl_error + u64" where
  "AVL_Largest t = (case findLargest (root t) of None \<Rightarrow> Inl ErrEmptyTree | Some n \<Rightarrow> Inr (key n))"

definition AVL_Flatten :: "AVLTree \<Rightarrow> AVLNode list" where
  "AVL_Flatten t = (if root t = ANil then [] else displayNodesInOrder (root t) [])"

subsection \<open>Invariant\<close>

fun inorder :: "AVLNode \<Rightarrow> (u64 \<times> int) list" where
  "inorder ANil = []"
| "inorder (AVLNode k v s h l r) = inorder l @ (k, v) # inorder r"

text \<open>Stored heights are the heights, siblings differ by at most one, stored sums are the sums.\<close>

fun avl_ok :: "AVLNode \<Rightarrow> bool" where
  "avl_ok ANil = True"
| "avl_ok (AVLNode k v s h l r) \<longleftrightarrow>
     avl_ok l \<and> avl_ok r \<and> \<bar>getHeight l - getHeight r\<bar> \<le> 1 \<and>
     h = 1 + max (getHeight l) (getHeight r) \<and> s = v + getSum l + getSum r"

definition bst_ok :: "AVLNode \<Rightarrow> bool" where
  "bst_ok n \<longleftrightarrow> sorted_wrt (<) (map fst (inorder n))"

definition avl_inv :: "AVLTree \<Rightarrow> bool" where
  "avl_inv t \<longleftrightarrow> avl_ok (root t) \<and> bst_ok (root t)"

definition avl_contents :: "AVLTree \<Rightarrow> u64 \<rightharpoonup> int" where
  "avl_contents t = map_of (inorder (root t))"

lemma max_int_eq [simp]: "max_int a b = max a b"
  by (simp add: max_int_def)

lemma avl_height_nonneg: "avl_ok n \<Longrightarrow> 0 \<le> getHeight n"
  by (induction n) auto

lemma avl_height_0 [simp]: "avl_ok n \<Longrightarrow> getHeight n \<le> 0 \<longleftrightarrow> n = ANil"
  using avl_height_nonneg by (cases n) (fastforce dest: avl_height_nonneg)+

lemma avl_sum: "avl_ok n \<Longrightarrow> getSum n = sum_list (map snd (inorder n))"
  by (induction n) auto

text \<open>
  The rebalancing step, from children whose heights differ by at most two: it returns, keeps
  the entries, restores the invariant, and its height is one of the two the parent can have.
\<close>


lemma rebalance_right:
  assumes "avl_ok l" "avl_ok r" "getHeight r = getHeight l + 2" "s = v + getSum l + getSum r"
  shows "\<exists>n. rebalanceTree (AVLNode k v s h l r) = Some n \<and> avl_ok n \<and>
     inorder n = inorder l @ (k, v) # inorder r \<and>
     getHeight n \<in> {getHeight r, 1 + getHeight r}"
proof (cases r)
  case ANil
  then show ?thesis using assms avl_height_nonneg[of l] by simp
next
  case (AVLNode rk rv rs rh rl rr)
  show ?thesis
  proof (cases "getHeight rl > getHeight rr")
    case False
    then show ?thesis using assms AVLNode by (auto simp: Let_def)
  next
    case True
    then obtain k2 v2 s2 h2 a b where rl: "rl = AVLNode k2 v2 s2 h2 a b"
      using assms(2) AVLNode avl_height_nonneg[of rr] by (cases rl) auto
    show ?thesis using assms AVLNode True rl by (auto simp: Let_def)
  qed
qed

lemma rebalance_left:
  assumes "avl_ok l" "avl_ok r" "getHeight l = getHeight r + 2" "s = v + getSum l + getSum r"
  shows "\<exists>n. rebalanceTree (AVLNode k v s h l r) = Some n \<and> avl_ok n \<and>
     inorder n = inorder l @ (k, v) # inorder r \<and>
     getHeight n \<in> {getHeight l, 1 + getHeight l}"
proof (cases l)
  case ANil
  then show ?thesis using assms avl_height_nonneg[of r] by simp
next
  case (AVLNode lk lv ls lh ll lr)
  show ?thesis
  proof (cases "getHeight lr > getHeight ll")
    case False
    then show ?thesis using assms AVLNode by (auto simp: Let_def)
  next
    case True
    then obtain k2 v2 s2 h2 a b where lr: "lr = AVLNode k2 v2 s2 h2 a b"
      using assms(1) AVLNode avl_height_nonneg[of ll] by (cases lr) auto
    show ?thesis using assms AVLNode True lr by (auto simp: Let_def)
  qed
qed

lemma rebalance_Some:
  assumes "avl_ok l" "avl_ok r" "\<bar>getHeight l - getHeight r\<bar> \<le> 2" "s = v + getSum l + getSum r"
  shows "\<exists>n. rebalanceTree (AVLNode k v s h l r) = Some n \<and> avl_ok n \<and>
     inorder n = inorder l @ (k, v) # inorder r \<and>
     (getHeight n = 1 + max (getHeight l) (getHeight r) \<or>
      \<bar>getHeight l - getHeight r\<bar> = 2 \<and> getHeight n = max (getHeight l) (getHeight r))"
proof -
  consider "getHeight r = getHeight l + 2" | "getHeight l = getHeight r + 2"
    | "\<bar>getHeight l - getHeight r\<bar> \<le> 1"
    using assms(3) by linarith
  then show ?thesis
  proof cases
    case 1
    then show ?thesis using rebalance_right[OF assms(1,2) 1 assms(4), of k h] by (auto simp: max_def)
  next
    case 2
    then show ?thesis using rebalance_left[OF assms(1,2) 2 assms(4), of k h] by (auto simp: max_def)
  next
    case 3
    then show ?thesis using assms by (auto simp: Let_def)
  qed
qed


lemma rebalance_idle: "avl_ok n \<Longrightarrow> rebalanceTree (recalculateSum n) = Some n"
  by (cases n) (auto simp: Let_def)

subsection \<open>Add and remove on sorted entry lists\<close>

definition below :: "u64 \<Rightarrow> (u64 \<times> int) list \<Rightarrow> (u64 \<times> int) list" where
  "below k xs = filter (\<lambda>e. fst e < k) xs"

definition above :: "u64 \<Rightarrow> (u64 \<times> int) list \<Rightarrow> (u64 \<times> int) list" where
  "above k xs = filter (\<lambda>e. k < fst e) xs"

definition without :: "u64 \<Rightarrow> (u64 \<times> int) list \<Rightarrow> (u64 \<times> int) list" where
  "without k xs = filter (\<lambda>e. fst e \<noteq> k) xs"

lemma bst_node: "bst_ok (AVLNode k v s h l r) \<longleftrightarrow> bst_ok l \<and> bst_ok r \<and>
    (\<forall>e\<in>set (inorder l). fst e < k) \<and> (\<forall>e\<in>set (inorder r). k < fst e)"
  by (auto simp: bst_ok_def sorted_wrt_append dest: less_trans)

lemma filter_all_below:
  "\<forall>e\<in>set xs. fst e < k \<Longrightarrow> k \<le> j \<Longrightarrow> below j xs = xs"
  "\<forall>e\<in>set xs. fst e < k \<Longrightarrow> k \<le> j \<Longrightarrow> above j xs = []"
  "\<forall>e\<in>set xs. fst e < k \<Longrightarrow> k \<le> j \<Longrightarrow> without j xs = xs"
  by (force simp: below_def above_def without_def filter_empty_conv filter_id_conv)+

lemma filter_all_above:
  "\<forall>e\<in>set xs. k < fst e \<Longrightarrow> j \<le> k \<Longrightarrow> above j xs = xs"
  "\<forall>e\<in>set xs. k < fst e \<Longrightarrow> j \<le> k \<Longrightarrow> below j xs = []"
  "\<forall>e\<in>set xs. k < fst e \<Longrightarrow> j \<le> k \<Longrightarrow> without j xs = xs"
  by (force simp: below_def above_def without_def filter_empty_conv filter_id_conv)+

lemma split_filters [simp]:
  "below k (xs @ e # ys) = below k xs @ (if fst e < k then [e] else []) @ below k ys"
  "above k (xs @ e # ys) = above k xs @ (if k < fst e then [e] else []) @ above k ys"
  "without k (xs @ e # ys) = without k xs @ (if fst e \<noteq> k then [e] else []) @ without k ys"
  "below k (e # ys) = (if fst e < k then [e] else []) @ below k ys"
  "above k (e # ys) = (if k < fst e then [e] else []) @ above k ys"
  "without k (e # ys) = (if fst e \<noteq> k then [e] else []) @ without k ys"
  by (auto simp: below_def above_def without_def)

lemma filters_Nil [simp]: "below k [] = []" "above k [] = []" "without k [] = []"
  by (simp_all add: below_def above_def without_def)

lemmas filter_parts = filter_all_below filter_all_above

lemma node_add_ok:
  assumes "avl_ok n" "bst_ok n"
  shows "\<exists>n'. node_add k v n = Some n' \<and> avl_ok n' \<and>
     inorder n' = below k (inorder n) @ (k, v) # above k (inorder n) \<and>
     getHeight n' \<in> {getHeight n, getHeight n + 1}"
  using assms
proof (induction n)
  case ANil
  then show ?case by (simp add: below_def above_def)
next
  case (AVLNode nk nv ns nh l r)
  note bst = AVLNode.prems(2)[unfolded bst_node]
  consider (lt) "k < nk" | (gt) "nk < k" | (eq) "k = nk" by fastforce
  then show ?case
  proof cases
    case lt
    with AVLNode bst obtain l' where l': "node_add k v l = Some l'" "avl_ok l'"
      "inorder l' = below k (inorder l) @ (k, v) # above k (inorder l)"
      "getHeight l' \<in> {getHeight l, getHeight l + 1}" by auto
    from l' AVLNode.prems rebalance_Some[of l' r _ nv nk nh] show ?thesis
      using lt bst by (auto simp: filter_parts max_def)
  next
    case gt
    with AVLNode bst obtain r' where r': "node_add k v r = Some r'" "avl_ok r'"
      "inorder r' = below k (inorder r) @ (k, v) # above k (inorder r)"
      "getHeight r' \<in> {getHeight r, getHeight r + 1}" by auto
    from r' AVLNode.prems rebalance_Some[of l r' _ nv nk nh] show ?thesis
      using gt bst by (auto simp: filter_parts max_def)
  next
    case eq
    from AVLNode.prems rebalance_Some[of l r _ v nk nh] show ?thesis
      using eq bst by (auto simp: filter_parts max_def)
  qed
qed


lemma findSmallest_hd:
  "n \<noteq> ANil \<Longrightarrow> \<exists>m. findSmallest n = Some m \<and> m \<noteq> ANil \<and> inorder n \<noteq> [] \<and> hd (inorder n) = (key m, val m)"
proof (induction n)
  case (AVLNode k v s h l r)
  then show ?case by (cases "l = ANil") auto
qed simp

lemma findLargest_last:
  "n \<noteq> ANil \<Longrightarrow> \<exists>m. findLargest n = Some m \<and> m \<noteq> ANil \<and> inorder n \<noteq> [] \<and> last (inorder n) = (key m, val m)"
proof (induction n)
  case (AVLNode k v s h l r)
  then show ?case by (cases "r = ANil") auto
qed simp

lemma bst_without_hd:
  assumes "bst_ok n" "inorder n = e # es"
  shows "without (fst e) (inorder n) = es" "\<forall>x\<in>set es. fst e < fst x"
  using assms by (auto simp: bst_ok_def without_def filter_id_conv)

lemma node_remove_ok:
  assumes "avl_ok n" "bst_ok n"
  shows "\<exists>n'. node_remove k n = Some n' \<and> avl_ok n' \<and> inorder n' = without k (inorder n) \<and>
     getHeight n' \<in> {getHeight n, getHeight n - 1}"
  using assms
proof (induction n arbitrary: k)
  case ANil
  then show ?case by (simp add: without_def)
next
  case (AVLNode nk nv ns nh l r)
  note bst = AVLNode.prems(2)[unfolded bst_node]
  consider (lt) "k < nk" | (gt) "nk < k" | (both) "k = nk" "l \<noteq> ANil" "r \<noteq> ANil"
    | (onlyl) "k = nk" "l \<noteq> ANil" "r = ANil" | (onlyr) "k = nk" "l = ANil" "r \<noteq> ANil"
    | (none) "k = nk" "l = ANil" "r = ANil" by fastforce
  then show ?case
  proof cases
    case lt
    with AVLNode bst obtain l' where l': "node_remove k l = Some l'" "avl_ok l'"
      "inorder l' = without k (inorder l)" "getHeight l' \<in> {getHeight l, getHeight l - 1}"
      by fastforce
    from l' AVLNode.prems rebalance_Some[of l' r _ nv nk nh] show ?thesis
      using lt bst by (auto simp: filter_parts max_def)
  next
    case gt
    with AVLNode bst obtain r' where r': "node_remove k r = Some r'" "avl_ok r'"
      "inorder r' = without k (inorder r)" "getHeight r' \<in> {getHeight r, getHeight r - 1}"
      by fastforce
    from r' AVLNode.prems rebalance_Some[of l r' _ nv nk nh] show ?thesis
      using gt bst by (auto simp: filter_parts max_def)
  next
    case both
    obtain m where m: "findSmallest r = Some m" "inorder r \<noteq> []" "hd (inorder r) = (key m, val m)"
      using findSmallest_hd[OF both(3)] by blast
    then have r: "inorder r = (key m, val m) # tl (inorder r)"
      by (metis list.collapse)
    have wo: "without (key m) (inorder r) = tl (inorder r)"
      using bst_without_hd(1)[of r, OF _ r] bst by simp
    obtain r' where r': "node_remove (key m) r = Some r'" "avl_ok r'"
      "inorder r' = tl (inorder r)" "getHeight r' \<in> {getHeight r, getHeight r - 1}"
      using AVLNode.IH(2)[of "key m"] AVLNode.prems bst wo by auto
    have "without k (inorder l) = inorder l" "without k (inorder r) = inorder r"
      using bst both(1) filter_all_below(3)[of "inorder l" nk nk] filter_all_above(3)[of "inorder r" nk nk]
      by auto
    then have "inorder l @ (key m, val m) # tl (inorder r) = without k (inorder (AVLNode nk nv ns nh l r))"
      using both(1) r by simp
    then show ?thesis
      using both m r' AVLNode.prems rebalance_Some[of l r' _ "val m" "key m" nh]
      by (auto simp: max_def)
  next
    case onlyl
    then show ?thesis using AVLNode.prems bst filter_all_below(3)[of "inorder l" nk nk]
      by (auto simp: rebalance_idle max_def split: if_splits)
  next
    case onlyr
    then show ?thesis using AVLNode.prems bst filter_all_above(3)[of "inorder r" nk nk]
      avl_height_nonneg[of r] by (auto simp: rebalance_idle max_def split: if_splits)
  next
    case none
    then show ?thesis using AVLNode.prems by simp
  qed
qed


subsection \<open>Search\<close>

definition up_to :: "u64 \<Rightarrow> (u64 \<times> int) list \<Rightarrow> (u64 \<times> int) list" where
  "up_to k xs = filter (\<lambda>e. fst e \<le> k) xs"

lemma up_to_simps [simp]:
  "up_to k [] = []"
  "up_to k (xs @ e # ys) = up_to k xs @ (if fst e \<le> k then [e] else []) @ up_to k ys"
  "up_to k (e # ys) = (if fst e \<le> k then [e] else []) @ up_to k ys"
  by (auto simp: up_to_def)

lemma up_to_parts:
  "\<forall>e\<in>set xs. fst e < k \<Longrightarrow> k \<le> j \<Longrightarrow> up_to j xs = xs"
  "\<forall>e\<in>set xs. k < fst e \<Longrightarrow> j \<le> k \<Longrightarrow> up_to j xs = []"
  by (force simp: up_to_def filter_empty_conv filter_id_conv)+

lemma node_search_sum:
  assumes "avl_ok n" "bst_ok n"
  shows "snd (node_search k n) = sum_list (map snd (up_to k (inorder n)))"
  using assms
proof (induction n)
  case (AVLNode nk nv ns nh l r)
  note bst = AVLNode.prems(2)[unfolded bst_node]
  show ?case
    using AVLNode bst avl_sum[of l] up_to_parts(1)[of "inorder l" nk k] up_to_parts(2)[of "inorder r" nk k]
    by (auto split: prod.splits)
qed simp

lemma node_search_node:
  assumes "bst_ok n"
  shows "case fst (node_search k n) of ANil \<Rightarrow> map_of (inorder n) k = None
     | m \<Rightarrow> key m = k \<and> map_of (inorder n) k = Some (val m)"
  using assms
proof (induction n)
  case (AVLNode nk nv ns nh l r)
  note bst = AVLNode.prems[unfolded bst_node]
  have "k \<le> nk \<Longrightarrow> map_of (inorder r) k = None" "nk \<le> k \<Longrightarrow> map_of (inorder l) k = None"
    using bst by (fastforce simp: map_of_eq_None_iff)+
  with AVLNode bst show ?case
    by (auto simp: map_add_def split: prod.splits AVLNode.splits option.splits)
qed simp

lemma map_of_up_to_sum:
  assumes "distinct (map fst xs)"
  shows "sum_list (map snd (up_to k xs)) = (\<Sum>j\<in>{j\<in>dom (map_of xs). j \<le> k}. the (map_of xs j))"
proof -
  let ?ys = "up_to k xs"
  have d: "distinct (map fst ?ys)"
    using assms by (simp add: up_to_def distinct_map_filter)
  have m: "map_of ?ys j = (if j \<le> k then map_of xs j else None)" for j
    unfolding up_to_def by (induction xs) auto
  have "sum_list (map snd ?ys) = (\<Sum>e\<in>set ?ys. snd e)"
    using d by (simp add: sum_list_distinct_conv_sum_set distinct_map)
  also have "\<dots> = (\<Sum>j\<in>fst ` set ?ys. the (map_of ?ys j))"
    using d by (subst sum.reindex) (auto simp: distinct_map intro!: sum.cong)
  also have "fst ` set ?ys = dom (map_of ?ys)"
    by (simp add: dom_map_of_conv_image_fst)
  also have "\<dots> = {j\<in>dom (map_of xs). j \<le> k}"
    by (auto simp: m dom_def split: if_splits)
  finally show ?thesis
    by (simp add: m)
qed

lemma bst_distinct: "bst_ok n \<Longrightarrow> distinct (map fst (inorder n))"
  unfolding bst_ok_def by (metis strict_sorted_iff)

subsection \<open>Height\<close>

lemma avl_height_bound:
  "avl_ok n \<Longrightarrow> 2 ^ (nat (getHeight n) div 2) \<le> length (inorder n) + 1"
proof (induction n)
  case (AVLNode k v s h l r)
  define m where "m = nat (getHeight (AVLNode k v s h l r))"
  have nn: "0 \<le> getHeight l" "0 \<le> getHeight r"
    using AVLNode.prems avl_height_nonneg by auto
  show ?case
  proof (cases "m \<ge> 2")
    case True
    have "(m - 2) div 2 \<le> nat (getHeight l) div 2" "(m - 2) div 2 \<le> nat (getHeight r) div 2"
      using AVLNode.prems nn unfolding m_def by (auto simp: max_def intro!: div_le_mono)
    then have "2 ^ ((m - 2) div 2) \<le> length (inorder l) + 1" "2 ^ ((m - 2) div 2) \<le> length (inorder r) + 1"
      using AVLNode by (auto intro: order_trans[OF power_increasing])
    moreover have "2 ^ (m div 2) = 2 * (2::nat) ^ ((m - 2) div 2)"
    proof -
      have "m div 2 = Suc ((m - 2) div 2)" using True by arith
      then show ?thesis by simp
    qed
    ultimately show ?thesis unfolding m_def by simp
  next
    case False
    then have "m div 2 = 0" by simp
    then show ?thesis unfolding m_def by simp
  qed
qed simp


subsection \<open>The tree implements a map from nonces to costs\<close>

text \<open>
  The public operations that change a tree, and what each does to the map it stands for.
\<close>

datatype cost_op = AddOp u64 int | RemoveOp u64 | UpdateOp u64 u64 int

fun avl_exec :: "cost_op \<Rightarrow> AVLTree \<Rightarrow> AVLTree option" where
  "avl_exec (AddOp k v) t = AVL_Add k v t"
| "avl_exec (RemoveOp k) t = AVL_Remove k t"
| "avl_exec (UpdateOp old new v) t = AVL_Update old new v t"

fun cost_spec :: "cost_op \<Rightarrow> (u64 \<rightharpoonup> int) \<Rightarrow> (u64 \<rightharpoonup> int)" where
  "cost_spec (AddOp k v) m = m(k \<mapsto> v)"
| "cost_spec (RemoveOp k) m = m(k := None)"
| "cost_spec (UpdateOp old new v) m = (m(old := None))(new \<mapsto> v)"

definition empty_tree :: AVLTree where
  "empty_tree = \<lparr>root = ANil\<rparr>"

lemma map_of_below_above:
  "map_of (below k xs @ (k, v) # above k xs) = (map_of xs)(k \<mapsto> v)"
proof
  fix j
  have "map_of (below k xs) j = (if j < k then map_of xs j else None)"
    "map_of (above k xs) j = (if k < j then map_of xs j else None)"
    by (induction xs) auto
  then show "map_of (below k xs @ (k, v) # above k xs) j = ((map_of xs)(k \<mapsto> v)) j"
    by (cases j k rule: linorder_cases) (auto simp: map_add_def split: option.splits)
qed

lemma map_of_without: "map_of (without k xs) = (map_of xs)(k := None)"
  by (induction xs) auto

lemma sorted_below_above:
  "sorted_wrt (<) (map fst xs) \<Longrightarrow> sorted_wrt (<) (map fst (below k xs @ (k, v) # above k xs))"
  by (induction xs) (auto simp: sorted_wrt_append below_def above_def dest: less_trans)

lemma sorted_without: "sorted_wrt (<) (map fst xs) \<Longrightarrow> sorted_wrt (<) (map fst (without k xs))"
  by (induction xs) (auto simp: without_def)

lemma AVL_Add_ok:
  assumes "avl_inv t"
  shows "\<exists>t'. AVL_Add k v t = Some t' \<and> avl_inv t' \<and> avl_contents t' = (avl_contents t)(k \<mapsto> v)"
proof -
  obtain n where n: "node_add k v (root t) = Some n" "avl_ok n"
    "inorder n = below k (inorder (root t)) @ (k, v) # above k (inorder (root t))"
    using node_add_ok[of "root t"] assms unfolding avl_inv_def by blast
  then have "bst_ok n"
    using assms sorted_below_above unfolding avl_inv_def bst_ok_def by metis
  with n show ?thesis
    using map_of_below_above by (simp add: AVL_Add_def avl_inv_def avl_contents_def)
qed

lemma AVL_Remove_ok:
  assumes "avl_inv t"
  shows "\<exists>t'. AVL_Remove k t = Some t' \<and> avl_inv t' \<and> avl_contents t' = (avl_contents t)(k := None)"
proof -
  obtain n where n: "node_remove k (root t) = Some n" "avl_ok n"
    "inorder n = without k (inorder (root t))"
    using node_remove_ok[of "root t"] assms unfolding avl_inv_def by blast
  then have "bst_ok n"
    using assms sorted_without unfolding avl_inv_def bst_ok_def by metis
  with n show ?thesis
    by (simp add: AVL_Remove_def avl_inv_def avl_contents_def map_of_without)
qed

lemma avl_exec_ok:
  assumes "avl_inv t"
  shows "\<exists>t'. avl_exec op t = Some t' \<and> avl_inv t' \<and> avl_contents t' = cost_spec op (avl_contents t)"
proof (cases op)
  case (UpdateOp old new v)
  from AVL_Remove_ok[OF assms, of old] obtain t1 where
    t1: "AVL_Remove old t = Some t1" "avl_inv t1" "avl_contents t1 = (avl_contents t)(old := None)"
    by blast
  with AVL_Add_ok[OF t1(2), of new v] UpdateOp show ?thesis
    by (auto simp: AVL_Update_def)
qed (use assms AVL_Add_ok AVL_Remove_ok in auto)

interpretation avl_map: op_refinement avl_exec cost_spec avl_contents avl_inv
  by unfold_locales (rule avl_exec_ok)

lemma empty_tree_ok: "avl_inv empty_tree" "avl_contents empty_tree = Map.empty"
  by (simp_all add: empty_tree_def avl_inv_def avl_contents_def bst_ok_def)

text \<open>
  C11. Every sequence of \<open>Add\<close>, \<open>Remove\<close> and \<open>Update\<close> calls on an empty tree returns without
  dereferencing nil, leaves a balanced search tree whose cached heights and sums are right, and
  the tree then holds exactly the entries of the map those calls describe.
\<close>

theorem avl_run_refines_map:
  "\<exists>t. run_ops avl_exec ops empty_tree = Some t \<and> avl_inv t \<and>
       avl_contents t = fold cost_spec ops Map.empty"
  using avl_map.run_refines[OF empty_tree_ok(1), of ops] by (simp add: empty_tree_ok(2))

text \<open>
  C12. \<open>Search\<close> on a well-formed tree returns the node of the nonce, or nil when the tree has
  none, together with the total cost of all entries whose nonce is at most the one searched.
\<close>

theorem avl_search_prefix_sum:
  assumes "avl_inv t"
  shows "case AVL_Search k t of (n, s) \<Rightarrow>
     s = (\<Sum>j\<in>{j\<in>dom (avl_contents t). j \<le> k}. the (avl_contents t j)) \<and>
     (case n of ANil \<Rightarrow> avl_contents t k = None | m \<Rightarrow> key m = k \<and> avl_contents t k = Some (val m))"
  using assms node_search_sum[of "root t" k] node_search_node[of "root t" k]
    map_of_up_to_sum[of "inorder (root t)" k] bst_distinct[of "root t"]
  unfolding avl_inv_def avl_contents_def AVL_Search_def
  by (cases "node_search k (root t)") simp

definition sample_tree :: AVLTree where
  "sample_tree = \<lparr>root = AVLNode 2 20 60 2 (AVLNode 1 10 10 1 ANil ANil) (AVLNode 3 30 30 1 ANil ANil)\<rparr>"

theorem avl_search_prefix_sum_witness:
  "run_ops avl_exec [AddOp 1 10, AddOp 2 20, AddOp 3 30] empty_tree = Some sample_tree \<and>
   avl_inv sample_tree \<and>
   snd (AVL_Search 2 sample_tree) = (\<Sum>j\<in>{j\<in>dom (avl_contents sample_tree). j \<le> 2}. the (avl_contents sample_tree j)) \<and>
   snd (AVL_Search 2 sample_tree) = 30"
proof -
  have inv: "avl_inv sample_tree"
    by (simp add: sample_tree_def avl_inv_def bst_ok_def)
  show ?thesis
    using avl_search_prefix_sum[OF inv, of 2] inv
    by (simp add: sample_tree_def empty_tree_def AVL_Add_def AVL_Search_def Let_def split: prod.splits)
qed



lemma displayNodes_append: "map (\<lambda>n. (key n, val n)) (displayNodesInOrder n ns) = map (\<lambda>n. (key n, val n)) ns @ inorder n"
  by (induction n arbitrary: ns) (auto simp: Let_def)

text \<open>
  C32. \<open>Flatten\<close> lists the entries of a well-formed tree in strictly increasing order of nonce,
  and \<open>Smallest\<close> and \<open>Largest\<close> return the first and the last nonce of that list, or
  \<open>ErrEmptyTree\<close> exactly when the tree is empty.
\<close>

theorem avl_flatten_sorted:
  assumes "avl_inv t"
  shows "sorted_wrt (<) (map key (AVL_Flatten t)) \<and>
     map_of (map (\<lambda>n. (key n, val n)) (AVL_Flatten t)) = avl_contents t \<and>
     AVL_Smallest t = (if AVL_Flatten t = [] then Inl ErrEmptyTree else Inr (key (hd (AVL_Flatten t)))) \<and>
     AVL_Largest t = (if AVL_Flatten t = [] then Inl ErrEmptyTree else Inr (key (last (AVL_Flatten t))))"
proof (cases "root t = ANil")
  case True
  then show ?thesis by (simp add: AVL_Flatten_def AVL_Smallest_def AVL_Largest_def avl_contents_def)
next
  case False
  let ?fs = "AVL_Flatten t"
  have eq: "map (\<lambda>n. (key n, val n)) ?fs = inorder (root t)"
    using False displayNodes_append[of "root t" "[]"] by (simp add: AVL_Flatten_def)
  have ne: "?fs \<noteq> []"
    using eq findSmallest_hd[OF False] by (metis list.simps(8))
  have "map key ?fs = map fst (inorder (root t))"
    by (simp flip: eq)
  then have "sorted_wrt (<) (map key ?fs)"
    using assms unfolding avl_inv_def bst_ok_def by simp
  moreover have "fst (hd (inorder (root t))) = key (hd ?fs)" "fst (last (inorder (root t))) = key (last ?fs)"
    using ne by (simp_all flip: eq add: hd_map last_map)
  ultimately show ?thesis
    using ne eq findSmallest_hd[OF False] findLargest_last[OF False]
    by (auto simp: AVL_Smallest_def AVL_Largest_def avl_contents_def)
qed

theorem avl_flatten_sorted_witness:
  "avl_inv sample_tree \<and> sorted_wrt (<) (map key (AVL_Flatten sample_tree)) \<and> AVL_Smallest sample_tree = Inr 1"
proof -
  have inv: "avl_inv sample_tree" by (simp add: sample_tree_def avl_inv_def bst_ok_def)
  then show ?thesis
    using avl_flatten_sorted[OF inv] by (simp add: AVL_Smallest_def sample_tree_def)
qed

end
