(* ===== verification/AccessList.thy ===== *)
theory AccessList
  imports Pangu_Prelude
begin

text \<open>
  Access lists, \<^verbatim>\<open>accesslist/accessList.go\<close>: the addresses and storage slots a transaction declares
  or touches. An address maps to \<open>-1\<close> (no slots) or to an index into the slice of slot sets. A
  slot set (\<open>map[common.Hash]struct{}\<close>) is the list of its distinct keys in iteration order.
  Indexing a slice out of range is a panic, \<open>None\<close>.
\<close>

type_synonym slotmap = "hash list"

record AccessList =
  Addresses :: "(address, int) gomap"
  Slots :: "slotmap list"

definition NewAccessList :: AccessList where
  "NewAccessList = \<lparr>Addresses = [], Slots = []\<rparr>"

definition Len :: "AccessList \<Rightarrow> nat" where
  "Len al = length (Addresses al)"

definition StorageKeys :: "AccessList \<Rightarrow> nat" where
  "StorageKeys al = fold (\<lambda>slot keys. keys + length slot) (Slots al) 0"

text \<open>\<open>al.Slots[i]\<close>, and the write of one key into the map stored there.\<close>

definition slot_at :: "AccessList \<Rightarrow> int \<Rightarrow> slotmap option" where
  "slot_at al i = (if 0 \<le> i \<and> i < int (length (Slots al)) then Some (Slots al ! nat i) else None)"

definition AccessListIsAddressExce :: "AccessList \<Rightarrow> address \<Rightarrow> bool" where
  "AccessListIsAddressExce al a = (map_of (Addresses al) a \<noteq> None)"

definition ContainsAddress :: "AccessList \<Rightarrow> address \<Rightarrow> bool" where
  "ContainsAddress al a = (map_of (Addresses al) a \<noteq> None)"

definition AccessListAddAddress :: "address \<Rightarrow> AccessList \<Rightarrow> AccessList \<times> bool" where
  "AccessListAddAddress a al =
     (if map_of (Addresses al) a \<noteq> None then (al, False)
      else (al\<lparr>Addresses := gm_put a (-1) (Addresses al)\<rparr>, True))"

definition AccessListAddSlot :: "address \<Rightarrow> hash \<Rightarrow> AccessList \<Rightarrow> (AccessList \<times> bool \<times> bool) option" where
  "AccessListAddSlot a s al =
     (let result = map_of (Addresses al) a
      in if result = None \<or> result = Some (-1) then
           Some (al\<lparr>Addresses := gm_put a (int (length (Slots al))) (Addresses al),
                    Slots := Slots al @ [[s]]\<rparr>, result = None, True)
         else do { slotmap \<leftarrow> slot_at al (the result);
                   if s \<notin> set slotmap
                   then Some (al\<lparr>Slots := (Slots al)[nat (the result) := slotmap @ [s]]\<rparr>, False, True)
                   else Some (al, False, False) })"

text \<open>
  \<open>ConflictDetection\<close>. \<open>conflict_user\<close> is the loop that fills \<open>tempUser\<close>: each iteration assigns
  \<open>append(tempNew, key)\<close>, so only the last key of the user's set survives, behind a copy of
  \<open>tempNew\<close>. \<open>conflict_entry\<close> is the body of the outer loop for one address; \<open>None\<close> inside means
  that the loop goes on.
\<close>

fun conflict_user :: "hash list \<Rightarrow> hash list \<Rightarrow> hash list \<Rightarrow> hash list" where
  "conflict_user tempNew [] tempUser = tempUser"
| "conflict_user tempNew (k # ks) tempUser = conflict_user tempNew ks (tempNew @ [k])"

type_synonym conflict = "bool \<times> bool \<times> address \<times> hash list"

definition conflict_entry :: "AccessList \<Rightarrow> AccessList \<Rightarrow> address \<Rightarrow> int \<Rightarrow> conflict option option" where
  "conflict_entry NewAL UserAL a value =
     (if value = -1 then
        Some (if \<not> ContainsAddress UserAL a then Some (False, False, a, []) else None)
      else do {
        tempNew \<leftarrow> slot_at NewAL value;
        if \<not> ContainsAddress UserAL a then Some (Some (False, True, a, tempNew))
        else do {
          userSlots \<leftarrow> slot_at UserAL (the (map_of (Addresses UserAL) a));
          let tempUser = conflict_user tempNew userSlots [];
          if length tempNew \<noteq> length tempUser then Some (Some (False, True, a, tempNew))
          else if \<forall>x\<in>set tempUser. x \<in> set tempNew then Some None
          else Some (Some (False, True, a, tempNew)) } })"

fun conflict_loop :: "AccessList \<Rightarrow> AccessList \<Rightarrow> (address \<times> int) list \<Rightarrow> conflict option" where
  "conflict_loop NewAL UserAL [] = Some (True, True, 0, [])"
| "conflict_loop NewAL UserAL ((a, value) # es) =
     do { found \<leftarrow> conflict_entry NewAL UserAL a value;
          case found of Some c \<Rightarrow> Some c | None \<Rightarrow> conflict_loop NewAL UserAL es }"

definition ConflictDetection :: "AccessList \<Rightarrow> AccessList \<Rightarrow> conflict option" where
  "ConflictDetection NewAL UserAL = conflict_loop NewAL UserAL (Addresses NewAL)"

fun combine_slots :: "address \<Rightarrow> hash list \<Rightarrow> AccessList \<Rightarrow> AccessList option" where
  "combine_slots a [] al = Some al"
| "combine_slots a (s # ss) al = do { (al', _, _) \<leftarrow> AccessListAddSlot a s al; combine_slots a ss al' }"

fun combine_loop :: "AccessList \<Rightarrow> (address \<times> int) list \<Rightarrow> AccessList \<Rightarrow> AccessList option" where
  "combine_loop NewAL [] TrueAL = Some TrueAL"
| "combine_loop NewAL ((a, value) # es) TrueAL =
     (let al1 = fst (AccessListAddAddress a TrueAL)
      in if value \<noteq> -1
         then do { slots \<leftarrow> slot_at NewAL value;
                   al2 \<leftarrow> combine_slots a slots al1;
                   combine_loop NewAL es al2 }
         else combine_loop NewAL es al1)"

definition CombineTrueAccessList :: "AccessList \<Rightarrow> AccessList \<Rightarrow> (AccessList \<times> bool) option" where
  "CombineTrueAccessList TrueAL NewAL =
     do { al \<leftarrow> combine_loop NewAL (Addresses NewAL) TrueAL; Some (al, True) }"

definition DeleteAddress :: "address \<Rightarrow> AccessList \<Rightarrow> AccessList" where
  "DeleteAddress a al = al\<lparr>Addresses := gm_del a (Addresses al)\<rparr>"

definition DeleteSlot :: "address \<Rightarrow> hash \<Rightarrow> AccessList \<Rightarrow> go_panic + AccessList" where
  "DeleteSlot a s al =
     (case map_of (Addresses al) a of
        None \<Rightarrow> Inl (PanicMessage ''reverting slot change, address not present in list'')
      | Some idx \<Rightarrow>
          (case slot_at al idx of
             None \<Rightarrow> Inl PanicIndexOutOfRange
           | Some slotmap \<Rightarrow>
               (let slotmap' = removeAll s slotmap
                in if slotmap' = []
                   then Inr (al\<lparr>Slots := take (nat idx) (Slots al),
                               Addresses := gm_put a (-1) (Addresses al)\<rparr>)
                   else Inr (al\<lparr>Slots := (Slots al)[nat idx := slotmap']\<rparr>))))"

definition Contains :: "AccessList \<Rightarrow> address \<Rightarrow> hash \<Rightarrow> (bool \<times> bool) option" where
  "Contains al a s =
     (case map_of (Addresses al) a of
        None \<Rightarrow> Some (False, False)
      | Some idx \<Rightarrow> if idx = -1 then Some (True, False)
                    else do { slotmap \<leftarrow> slot_at al idx; Some (True, s \<in> set slotmap) })"

definition AddSlot :: "address \<Rightarrow> hash \<Rightarrow> AccessList \<Rightarrow> (AccessList \<times> bool \<times> bool) option" where
  "AddSlot a s al =
     (case map_of (Addresses al) a of
        None \<Rightarrow> Some (al\<lparr>Addresses := gm_put a (int (length (Slots al))) (Addresses al),
                         Slots := Slots al @ [[s]]\<rparr>, True, True)
      | Some idx \<Rightarrow>
          if idx = -1
          then Some (al\<lparr>Addresses := gm_put a (int (length (Slots al))) (Addresses al),
                        Slots := Slots al @ [[s]]\<rparr>, False, True)
          else do { slotmap \<leftarrow> slot_at al idx;
                    if s \<notin> set slotmap
                    then Some (al\<lparr>Slots := (Slots al)[nat idx := slotmap @ [s]]\<rparr>, False, True)
                    else Some (al, False, False) })"

definition AddAddress :: "address \<Rightarrow> AccessList \<Rightarrow> AccessList \<times> bool" where
  "AddAddress a al =
     (if map_of (Addresses al) a \<noteq> None then (al, False)
      else (al\<lparr>Addresses := gm_put a (-1) (Addresses al)\<rparr>, True))"

definition Copy :: "AccessList \<Rightarrow> AccessList" where
  "Copy al = \<lparr>Addresses = fold (\<lambda>(k, v) m. gm_put k v m) (Addresses al) [],
             Slots = map (\<lambda>slotMap. fold (\<lambda>k m. if k \<in> set m then m else m @ [k]) slotMap []) (Slots al)\<rparr>"

subsection \<open>Well-formed access lists and what they stand for\<close>

definition indices :: "AccessList \<Rightarrow> int list" where
  "indices al = filter (\<lambda>i. i \<noteq> -1) (map snd (Addresses al))"

text \<open>
  Addresses are distinct keys, the indices other than \<open>-1\<close> are exactly the positions of the slice,
  each used once, and a slot set has distinct keys and is never empty.
\<close>

definition al_wf :: "AccessList \<Rightarrow> bool" where
  "al_wf al \<longleftrightarrow> gm_wf (Addresses al) \<and> distinct (indices al) \<and>
     set (indices al) = {0..<int (length (Slots al))} \<and>
     (\<forall>slot\<in>set (Slots al). distinct slot \<and> slot \<noteq> [])"

text \<open>The abstract value: the set of addresses and the set of (address, slot) pairs.\<close>

definition al_addrs :: "AccessList \<Rightarrow> address set" where
  "al_addrs al = fst ` set (Addresses al)"

definition slots_of :: "AccessList \<Rightarrow> address \<Rightarrow> hash list" where
  "slots_of al a = (case map_of (Addresses al) a of None \<Rightarrow> []
     | Some i \<Rightarrow> (case slot_at al i of None \<Rightarrow> [] | Some slot \<Rightarrow> slot))"

definition al_pairs :: "AccessList \<Rightarrow> (address \<times> hash) set" where
  "al_pairs al = {(a, s). s \<in> set (slots_of al a)}"

lemma slot_at_Some: "slot_at al i = Some slot \<longleftrightarrow> 0 \<le> i \<and> i < int (length (Slots al)) \<and> slot = Slots al ! nat i"
  by (auto simp: slot_at_def)

lemma slot_at_update_Addresses [simp]: "slot_at (al\<lparr>Addresses := m\<rparr>) i = slot_at al i"
  by (simp add: slot_at_def)

lemma al_wf_new [wf_intros]: "al_wf NewAccessList"
  by (simp add: al_wf_def NewAccessList_def indices_def)

lemma al_wf_index:
  assumes "al_wf al" "map_of (Addresses al) a = Some i" "i \<noteq> -1"
  shows "slot_at al i = Some (Slots al ! nat i)" "0 \<le> i" "nat i < length (Slots al)"
    "distinct (Slots al ! nat i)" "Slots al ! nat i \<noteq> []"
proof -
  have "i \<in> set (indices al)"
    using assms(2,3) by (force simp: indices_def dest: map_of_SomeD)
  then have i: "0 \<le> i" "i < int (length (Slots al))"
    using assms(1) by (auto simp: al_wf_def)
  then show "slot_at al i = Some (Slots al ! nat i)" "0 \<le> i" "nat i < length (Slots al)"
    by (auto simp: slot_at_def)
  then show "distinct (Slots al ! nat i)" "Slots al ! nat i \<noteq> []"
    using assms(1) by (auto simp: al_wf_def)
qed

text \<open>Two addresses never share a slot set.\<close>

lemma al_wf_inj:
  assumes wf: "al_wf al" and a: "map_of (Addresses al) a = Some i" and b: "map_of (Addresses al) b = Some i"
    and i: "i \<noteq> -1"
  shows "a = b"
proof (rule ccontr)
  assume "a \<noteq> b"
  from a obtain xs ys where m: "Addresses al = xs @ (a, i) # ys"
    by (meson map_of_SomeD split_list)
  with b \<open>a \<noteq> b\<close> have "(b, i) \<in> set (xs @ ys)"
    using map_of_SomeD[OF b] by auto
  then have "i \<in> snd ` set (xs @ ys)" by force
  then have "\<not> distinct (indices al)"
    using i by (simp add: indices_def m) blast
  with wf show False by (simp add: al_wf_def)
qed

lemma al_addrs_iff: "a \<in> al_addrs al \<longleftrightarrow> map_of (Addresses al) a \<noteq> None"
  by (simp add: al_addrs_def map_of_eq_None_iff)

lemma al_pairs_iff: "(a, s) \<in> al_pairs al \<longleftrightarrow> s \<in> set (slots_of al a)"
  by (simp add: al_pairs_def)

lemma slot_at_minus_1 [simp]: "slot_at al (- 1) = None"
  by (simp add: slot_at_def)

lemma Contains_ok:
  assumes "al_wf al"
  shows "Contains al a s = Some (a \<in> al_addrs al, (a, s) \<in> al_pairs al)"
  using al_wf_index(1)[OF assms]
  by (auto simp: Contains_def al_addrs_iff al_pairs_iff slots_of_def split: option.splits)

lemma ContainsAddress_ok: "ContainsAddress al a \<longleftrightarrow> a \<in> al_addrs al"
  by (simp add: ContainsAddress_def al_addrs_iff)

lemma indices_put_new: "map_of (Addresses al) a = None \<Longrightarrow>
  indices (al\<lparr>Addresses := gm_put a i (Addresses al)\<rparr>) = indices al @ filter (\<lambda>i. i \<noteq> -1) [i]"
  by (simp add: indices_def gm_put_new)

lemma AddAddress_ok:
  assumes "al_wf al" "AddAddress a al = (al', b)"
  shows "al_wf al' \<and> al_addrs al' = insert a (al_addrs al) \<and> al_pairs al' = al_pairs al \<and>
     b = (a \<notin> al_addrs al)"
proof (cases "map_of (Addresses al) a")
  case None
  then have al': "al' = al\<lparr>Addresses := gm_put a (-1) (Addresses al)\<rparr>" "b"
    using assms(2) by (auto simp: AddAddress_def)
  have "al_wf al'"
    using assms(1) None by (auto simp: al_wf_def al' indices_put_new intro: gm_wf_put)
  moreover have "al_pairs al' = al_pairs al"
  proof -
    have "slots_of al' b = slots_of al b" for b
      using None by (simp add: slots_of_def al' gomap_simps split: option.split)
    then show ?thesis by (simp add: al_pairs_def)
  qed
  moreover have "al_addrs al' = insert a (al_addrs al)"
    by (auto simp: al_addrs_iff al' gomap_simps split: if_splits)
  moreover have "a \<notin> al_addrs al"
    using None by (simp add: al_addrs_iff)
  ultimately show ?thesis using al' by simp
next
  case (Some i)
  then show ?thesis using assms by (auto simp: AddAddress_def al_addrs_iff)
qed

text \<open>Giving an address that has no slots its first one.\<close>

lemma first_slot_ok:
  assumes wf: "al_wf al" and a: "map_of (Addresses al) a \<in> {None, Some (-1)}"
    and al': "al' = al\<lparr>Addresses := gm_put a (int (length (Slots al))) (Addresses al), Slots := Slots al @ [[s]]\<rparr>"
  shows "al_wf al'" "al_addrs al' = insert a (al_addrs al)" "al_pairs al' = insert (a, s) (al_pairs al)"
proof -
  let ?n = "int (length (Slots al))"
  have "distinct (indices al') \<and> set (indices al') = insert ?n (set (indices al))"
  proof (cases "map_of (Addresses al) a")
    case None
    then show ?thesis using wf by (auto simp: al' indices_def gm_put_new al_wf_def)
  next
    case (Some i)
    then have i: "i = -1" using a by simp
    have "gm_wf (Addresses al)" using wf by (simp add: al_wf_def)
    then obtain xs ys where m: "Addresses al = xs @ (a, i) # ys"
      and m': "gm_put a ?n (Addresses al) = xs @ (a, ?n) # ys"
      using Some by (rule gm_put_old) blast
    let ?f = "\<lambda>zs. filter (\<lambda>i. i \<noteq> -1) (map snd zs)"
    have "indices al = ?f xs @ ?f ys"
      using i by (simp add: indices_def m)
    moreover have "indices al' = ?f xs @ ?n # ?f ys"
      by (simp add: indices_def al' m')
    moreover have "?n \<notin> set (indices al)" "distinct (indices al)"
      using wf by (simp_all add: al_wf_def)
    ultimately show ?thesis by simp
  qed
  moreover have "{0..<int (length (Slots al'))} = insert ?n {0..<?n}"
    by (auto simp: al')
  moreover have "gm_wf (Addresses al')"
    using wf by (simp add: al_wf_def al' gm_wf_put)
  moreover have "\<forall>slot\<in>set (Slots al'). distinct slot \<and> slot \<noteq> []"
    using wf by (simp add: al_wf_def al')
  ultimately show "al_wf al'"
    using wf by (simp add: al_wf_def)
  show "al_addrs al' = insert a (al_addrs al)"
    by (auto simp: al_addrs_iff al' gomap_simps split: if_splits)
  have slot: "slot_at al' i = (if i = ?n then Some [s] else slot_at al i)" for i
    by (auto simp: slot_at_def al' nth_append)
  have fresh: "map_of (Addresses al) b \<noteq> Some ?n" for b
    using al_wf_index(3)[OF wf, of b ?n] by auto
  have A: "map_of (Addresses al') b = (if b = a then Some ?n else map_of (Addresses al) b)" for b
    by (simp add: al' gomap_simps)
  have a_none: "slots_of al a = []"
    using a by (auto simp: slots_of_def)
  have a_one: "slots_of al' a = [s]"
    by (simp add: slots_of_def A slot)
  have other: "slots_of al' b = slots_of al b" if "b \<noteq> a" for b
    using that fresh[of b] by (simp add: slots_of_def A slot split: option.split)
  have "t \<in> set (slots_of al' b) \<longleftrightarrow> (b, t) = (a, s) \<or> t \<in> set (slots_of al b)" for b t
    by (cases "b = a") (simp_all add: a_none a_one other)
  then show "al_pairs al' = insert (a, s) (al_pairs al)" by (auto simp: al_pairs_def)
qed


text \<open>Adding to, or removing from, the slot set an address already has.\<close>

lemma slot_update_ok:
  assumes wf: "al_wf al" and a: "map_of (Addresses al) a = Some i" "i \<noteq> -1"
    and new: "distinct new" "new \<noteq> []"
    and al': "al' = al\<lparr>Slots := (Slots al)[nat i := new]\<rparr>"
  shows "al_wf al'" "al_addrs al' = al_addrs al"
    "\<And>b. slots_of al' b = (if b = a then new else slots_of al b)"
proof -
  note idx = al_wf_index[OF wf a]
  have "\<forall>slot\<in>set (Slots al'). distinct slot \<and> slot \<noteq> []"
    using wf new set_update_subset_insert[of "Slots al" "nat i" new] by (auto simp: al_wf_def al')
  then show "al_wf al'"
    using wf by (simp add: al_wf_def al' indices_def)
  show "al_addrs al' = al_addrs al"
    by (simp add: al_addrs_def al')
  fix b
  show "slots_of al' b = (if b = a then new else slots_of al b)"
  proof (cases "b = a")
    case True
    then show ?thesis using a idx by (auto simp: slots_of_def slot_at_def al' split: if_splits)
  next
    case False
    have "j \<noteq> i" if "map_of (Addresses al) b = Some j" for j
      using al_wf_inj[OF wf a(1), of b] that a(2) False by blast
    then show ?thesis
      using False idx by (auto simp: slots_of_def slot_at_def al' nth_list_update nat_eq_iff split: option.split)
  qed
qed

lemma AddSlot_ok:
  assumes "al_wf al"
  shows "\<exists>al'. AddSlot a s al = Some (al', a \<notin> al_addrs al, (a, s) \<notin> al_pairs al) \<and> al_wf al' \<and>
     al_addrs al' = insert a (al_addrs al) \<and> al_pairs al' = insert (a, s) (al_pairs al)"
proof (cases "map_of (Addresses al) a \<in> {None, Some (-1)}")
  case True
  then have "slots_of al a = []" by (auto simp: slots_of_def)
  with True show ?thesis
    using first_slot_ok[OF assms True refl, of s]
    by (auto simp: AddSlot_def al_addrs_iff al_pairs_iff)
next
  case False
  then obtain i where i: "map_of (Addresses al) a = Some i" "i \<noteq> -1" by auto
  note idx = al_wf_index[OF assms i]
  have slots: "slots_of al a = Slots al ! nat i"
    using i idx by (simp add: slots_of_def)
  have a: "a \<in> al_addrs al" using i by (simp add: al_addrs_iff)
  show ?thesis
  proof (cases "s \<in> set (Slots al ! nat i)")
    case True
    then show ?thesis using assms i idx slots a
      by (auto simp: AddSlot_def al_pairs_iff insert_absorb)
  next
    case False
    let ?al' = "al\<lparr>Slots := (Slots al)[nat i := Slots al ! nat i @ [s]]\<rparr>"
    have "distinct (Slots al ! nat i @ [s])" using False idx by simp
    note up = slot_update_ok[OF assms i this _ refl]
    have "al_pairs ?al' = insert (a, s) (al_pairs al)"
      using up(3) slots by (auto simp: al_pairs_def split: if_splits)
    then show ?thesis using i idx slots a up False
      by (auto simp: AddSlot_def al_pairs_iff insert_absorb)
  qed
qed

lemma AccessListAddSlot_eq: "AccessListAddSlot a s al = AddSlot a s al"
  by (cases "map_of (Addresses al) a"; cases "slot_at al (the (map_of (Addresses al) a))")
    (auto simp: AccessListAddSlot_def AddSlot_def)

lemma AccessListAddAddress_eq: "AccessListAddAddress a al = AddAddress a al"
  by (simp add: AccessListAddAddress_def AddAddress_def)

subsection \<open>Undoing an addition\<close>

definition undo_AddSlot :: "address \<Rightarrow> hash \<Rightarrow> bool \<times> bool \<Rightarrow> AccessList \<Rightarrow> go_panic + AccessList" where
  "undo_AddSlot a s flags al =
     (case (if snd flags then DeleteSlot a s al else Inr al) of
        Inl p \<Rightarrow> Inl p
      | Inr al' \<Rightarrow> Inr (if fst flags then DeleteAddress a al' else al'))"

lemma undo_AddSlot_ok:
  assumes wf: "al_wf al" and add: "AddSlot a s al = Some (al', b1, b2)"
  shows "undo_AddSlot a s (b1, b2) al' = Inr al"
proof (cases "map_of (Addresses al) a")
  case None
  then show ?thesis using add
    by (auto simp: AddSlot_def undo_AddSlot_def DeleteSlot_def DeleteAddress_def slot_at_def gomap_simps
        gm_put_twice gm_del_put_new nth_append)
next
  case (Some i)
  show ?thesis
  proof (cases "i = -1")
    case True
    then show ?thesis using Some add
      by (auto simp: AddSlot_def undo_AddSlot_def DeleteSlot_def slot_at_def gomap_simps
          gm_put_twice gm_put_same nth_append)
  next
    case False
    note idx = al_wf_index[OF wf Some False]
    show ?thesis
    proof (cases "s \<in> set (Slots al ! nat i)")
      case True
      then show ?thesis using Some False add idx by (auto simp: AddSlot_def undo_AddSlot_def)
    next
      case s: False
      then have "removeAll s (Slots al ! nat i @ [s]) = Slots al ! nat i" by simp
      then show ?thesis using Some False add idx s
        by (auto simp: AddSlot_def undo_AddSlot_def DeleteSlot_def slot_at_def)
    qed
  qed
qed


subsection \<open>Counting, copying and merging\<close>

lemma fold_length: "fold (\<lambda>slot keys. keys + length slot) xs n = n + sum_list (map length xs)"
  by (induction xs arbitrary: n) auto

lemma StorageKeys_card:
  assumes wf: "al_wf al"
  shows "StorageKeys al = card (al_pairs al)"
proof -
  let ?n = "length (Slots al)"
  let ?S = "SIGMA i:{0..<?n}. set (Slots al ! i)"
  let ?f = "\<lambda>(a, s). (nat (the (map_of (Addresses al) a)), s)"
  have mem: "\<exists>i. map_of (Addresses al) a = Some (int i) \<and> i < ?n \<and> s \<in> set (Slots al ! i)"
    if as: "(a, s) \<in> al_pairs al" for a s
  proof -
    from as obtain i slot where "map_of (Addresses al) a = Some i" "slot_at al i = Some slot" "s \<in> set slot"
      by (auto simp: al_pairs_def slots_of_def eq_commute[of "Some _"] split: option.splits)
    then show ?thesis by (intro exI[of _ "nat i"]) (auto simp: slot_at_Some)
  qed
  have "inj_on ?f (al_pairs al)"
  proof (rule inj_onI)
    fix p q assume pq: "p \<in> al_pairs al" "q \<in> al_pairs al" and eq: "?f p = ?f q"
    from mem[of "fst p" "snd p"] mem[of "fst q" "snd q"] pq obtain i j where
      ij: "map_of (Addresses al) (fst p) = Some (int i)" "map_of (Addresses al) (fst q) = Some (int j)" by auto
    with eq have "i = j" "snd p = snd q" by (simp_all add: split_beta)
    with ij al_wf_inj[OF wf ij(1), of "fst q"] show "p = q" by (simp add: prod_eq_iff)
  qed
  moreover have "?f ` al_pairs al = ?S"
  proof
    show "?f ` al_pairs al \<subseteq> ?S" using mem by (fastforce intro!: image_subsetI)
    show "?S \<subseteq> ?f ` al_pairs al"
    proof clarify
      fix i s assume i: "i \<in> {0..<?n}" and s: "s \<in> set (Slots al ! i)"
      then have "int i \<in> set (indices al)" using wf by (simp add: al_wf_def)
      then obtain a where "(a, int i) \<in> set (Addresses al)" by (auto simp: indices_def)
      then have a: "map_of (Addresses al) a = Some (int i)"
        using wf by (simp add: al_wf_def)
      then have "(a, s) \<in> al_pairs al"
        using i s by (simp add: al_pairs_def slots_of_def slot_at_def)
      then show "(i, s) \<in> ?f ` al_pairs al"
        using a by (intro image_eqI[where x = "(a, s)"]) simp_all
    qed
  qed
  ultimately have "card (al_pairs al) = card ?S"
    by (metis card_image)
  also have "\<dots> = (\<Sum>i = 0..<?n. length (Slots al ! i))"
    using wf by (simp add: al_wf_def distinct_card)
  also have "\<dots> = StorageKeys al"
    by (simp add: StorageKeys_def fold_length sum_list_sum_nth)
  finally show ?thesis by simp
qed

lemma Len_card: "al_wf al \<Longrightarrow> Len al = card (al_addrs al)"
  by (metis Len_def al_wf_def al_addrs_def distinct_card length_map set_map)

lemma Copy_id:
  assumes "al_wf al"
  shows "Copy al = al"
proof -
  have "fold (\<lambda>(k, v) m. gm_put k v m) xs ys = ys @ xs" if "gm_wf (ys @ xs)" for xs ys :: "(address, int) gomap"
    using that
  proof (induction xs arbitrary: ys)
    case (Cons x xs)
    then have "map_of ys (fst x) = None" by (auto simp: map_of_eq_None_iff)
    then show ?case using Cons by (cases x) (simp add: gm_put_new)
  qed simp
  from this[of "[]"] have A: "fold (\<lambda>(k, v) m. gm_put k v m) (Addresses al) [] = Addresses al"
    using assms by (simp add: al_wf_def)
  have "fold (\<lambda>k m. if k \<in> set m then m else m @ [k]) xs ys = ys @ xs" if "distinct (ys @ xs)" for xs ys :: "hash list"
    using that by (induction xs arbitrary: ys) auto
  from this[of "[]"] have "map (\<lambda>slotMap. fold (\<lambda>k m. if k \<in> set m then m else m @ [k]) slotMap []) (Slots al) = Slots al"
    using assms by (intro map_idI) (auto simp: al_wf_def)
  with A show ?thesis by (simp add: Copy_def)
qed

lemma combine_slots_ok:
  assumes "al_wf al"
  shows "\<exists>al'. combine_slots a ss al = Some al' \<and> al_wf al' \<and>
     al_addrs al' = al_addrs al \<union> (if ss = [] then {} else {a}) \<and>
     al_pairs al' = al_pairs al \<union> {a} \<times> set ss"
  using assms
proof (induction ss arbitrary: al)
  case (Cons s ss)
  from AddSlot_ok[OF Cons.prems, of a s] obtain al1 where
    "AddSlot a s al = Some (al1, a \<notin> al_addrs al, (a, s) \<notin> al_pairs al)" "al_wf al1"
    "al_addrs al1 = insert a (al_addrs al)" "al_pairs al1 = insert (a, s) (al_pairs al)" by blast
  with Cons.IH[OF \<open>al_wf al1\<close>] show ?case
    by (auto simp: AccessListAddSlot_eq)
qed simp

definition entry_pairs :: "AccessList \<Rightarrow> address \<times> int \<Rightarrow> (address \<times> hash) set" where
  "entry_pairs al e = {fst e} \<times> set (case slot_at al (snd e) of None \<Rightarrow> [] | Some slot \<Rightarrow> slot)"

lemma combine_loop_ok:
  assumes "al_wf al" "\<forall>e\<in>set es. snd e \<noteq> -1 \<longrightarrow> slot_at NewAL (snd e) \<noteq> None"
  shows "\<exists>al'. combine_loop NewAL es al = Some al' \<and> al_wf al' \<and>
     al_addrs al' = al_addrs al \<union> fst ` set es \<and>
     al_pairs al' = al_pairs al \<union> (\<Union>e\<in>set es. entry_pairs NewAL e)"
  using assms
proof (induction es arbitrary: al)
  case (Cons e es)
  obtain a i where e: "e = (a, i)" by (cases e)
  obtain al1 b where al1: "AddAddress a al = (al1, b)" by (cases "AddAddress a al")
  note ad = AddAddress_ok[OF Cons.prems(1) al1]
  obtain slots where slots: "i \<noteq> -1 \<Longrightarrow> slot_at NewAL i = Some slots" "i = -1 \<Longrightarrow> slots = []"
    using Cons.prems(2) e by (cases "i = -1") auto
  from combine_slots_ok[of al1 a slots] ad obtain al2 where
    al2: "combine_slots a slots al1 = Some al2" "al_wf al2"
      "al_addrs al2 = insert a (al_addrs al)" "al_pairs al2 = al_pairs al \<union> {a} \<times> set slots"
    by (auto split: if_splits)
  have "combine_loop NewAL (e # es) al = combine_loop NewAL es al2"
    using al1 al2(1) slots e by (cases "i = -1") (simp_all add: AccessListAddAddress_eq Let_def)
  moreover have "entry_pairs NewAL e = {a} \<times> set slots"
    using slots e by (cases "i = -1") (simp_all add: entry_pairs_def)
  ultimately show ?case
    using Cons.IH[OF al2(2)] Cons.prems(2) al2 e by auto
qed simp

lemma al_pairs_entries:
  assumes "al_wf al"
  shows "al_pairs al = (\<Union>e\<in>set (Addresses al). entry_pairs al e)"
proof -
  have entry: "(a, i) \<in> set (Addresses al) \<longleftrightarrow> map_of (Addresses al) a = Some i" for a i
    using assms by (simp add: al_wf_def)
  have "(a, s) \<in> al_pairs al \<longleftrightarrow> (\<exists>i. (a, i) \<in> set (Addresses al) \<and> (a, s) \<in> entry_pairs al (a, i))" for a s
    by (auto simp: entry al_pairs_def slots_of_def entry_pairs_def eq_commute[of "Some _"] split: option.split)
  then show ?thesis by (fastforce simp: entry_pairs_def)
qed

lemma al_wf_entries:
  assumes "al_wf al"
  shows "\<forall>e\<in>set (Addresses al). snd e \<noteq> -1 \<longrightarrow> slot_at al (snd e) \<noteq> None"
proof (intro ballI impI)
  fix e assume "e \<in> set (Addresses al)" "snd e \<noteq> -1"
  moreover from this have "map_of (Addresses al) (fst e) = Some (snd e)"
    using assms by (simp add: al_wf_def)
  ultimately show "slot_at al (snd e) \<noteq> None"
    using al_wf_index(1)[OF assms] by simp
qed

subsection \<open>Conflict detection\<close>

lemma conflict_user_eq: "conflict_user new ks acc = (if ks = [] then acc else new @ [last ks])"
  by (induction ks arbitrary: acc) auto

text \<open>One address passes the check only when it carries no slots at all.\<close>

lemma conflict_entry_passes:
  assumes "value \<noteq> -1 \<Longrightarrow> slot_at New value \<noteq> None \<and> slot_at New value \<noteq> Some []"
  shows "conflict_entry New User a value = Some None \<longleftrightarrow> value = -1 \<and> a \<in> al_addrs User"
  using assms
  by (auto simp: conflict_entry_def ContainsAddress_ok conflict_user_eq Let_def
      split: if_splits Option.bind_splits)

lemma conflict_entry_rejects: "conflict_entry New User a value = Some (Some c) \<Longrightarrow> \<not> fst c"
  by (auto simp: conflict_entry_def Let_def split: if_splits Option.bind_splits)

lemma conflict_loop_passes:
  assumes "\<forall>e\<in>set es. snd e \<noteq> -1 \<longrightarrow> slot_at New (snd e) \<noteq> None \<and> slot_at New (snd e) \<noteq> Some []"
  shows "(\<exists>c. conflict_loop New User es = Some c \<and> fst c) \<longleftrightarrow> (\<forall>e\<in>set es. snd e = -1 \<and> fst e \<in> al_addrs User)"
  using assms
proof (induction es)
  case (Cons e es)
  obtain a i where e: "e = (a, i)" by (cases e)
  have ent: "conflict_entry New User a i = Some None \<longleftrightarrow> i = -1 \<and> a \<in> al_addrs User"
    by (rule conflict_entry_passes) (use Cons.prems e in auto)
  show ?case
  proof (cases "conflict_entry New User a i")
    case None
    then show ?thesis using ent e by auto
  next
    case (Some r)
    show ?thesis
    proof (cases r)
      case None
      then show ?thesis using Cons Some ent e by simp
    next
      case (Some c)
      with \<open>conflict_entry New User a i = Some r\<close> show ?thesis
        using ent e conflict_entry_rejects[of New User a i c] by auto
    qed
  qed
qed simp

lemma al_wf_entries_nonempty:
  assumes "al_wf al"
  shows "\<forall>e\<in>set (Addresses al). snd e \<noteq> -1 \<longrightarrow> slot_at al (snd e) \<noteq> None \<and> slot_at al (snd e) \<noteq> Some []"
proof (intro ballI impI)
  fix e assume e: "e \<in> set (Addresses al)" "snd e \<noteq> -1"
  then have "map_of (Addresses al) (fst e) = Some (snd e)"
    using assms by (simp add: al_wf_def)
  then show "slot_at al (snd e) \<noteq> None \<and> slot_at al (snd e) \<noteq> Some []"
    using al_wf_index(1,5)[OF assms _ e(2)] by auto
qed

lemma al_pairs_empty_iff:
  assumes "al_wf al"
  shows "al_pairs al = {} \<longleftrightarrow> (\<forall>e\<in>set (Addresses al). snd e = -1)"
  using al_wf_entries_nonempty[OF assms]
  by (fastforce simp: al_pairs_entries[OF assms] entry_pairs_def)

subsection \<open>Access lists as sets\<close>

datatype al_op = AddAddressOp address | AddSlotOp address hash

fun al_exec :: "al_op \<Rightarrow> AccessList \<Rightarrow> AccessList option" where
  "al_exec (AddAddressOp a) al = Some (fst (AddAddress a al))"
| "al_exec (AddSlotOp a s) al = map_option fst (AddSlot a s al)"

fun al_spec :: "al_op \<Rightarrow> address set \<times> (address \<times> hash) set \<Rightarrow> address set \<times> (address \<times> hash) set" where
  "al_spec (AddAddressOp a) (A, P) = (insert a A, P)"
| "al_spec (AddSlotOp a s) (A, P) = (insert a A, insert (a, s) P)"

definition al_abs :: "AccessList \<Rightarrow> address set \<times> (address \<times> hash) set" where
  "al_abs al = (al_addrs al, al_pairs al)"

lemma al_exec_ok:
  assumes "al_wf al"
  shows "\<exists>al'. al_exec op al = Some al' \<and> al_wf al' \<and> al_abs al' = al_spec op (al_abs al)"
proof (cases op)
  case (AddAddressOp a)
  obtain al' b where "AddAddress a al = (al', b)" by (cases "AddAddress a al")
  with AddAddress_ok[OF assms this] AddAddressOp show ?thesis by (simp add: al_abs_def)
next
  case (AddSlotOp a s)
  with AddSlot_ok[OF assms, of a s] show ?thesis by (auto simp: al_abs_def)
qed

interpretation al_sets: op_refinement al_exec al_spec al_abs al_wf
  by unfold_locales (rule al_exec_ok)

lemma al_abs_new: "al_abs NewAccessList = ({}, {})"
  by (simp add: al_abs_def al_addrs_def al_pairs_def slots_of_def NewAccessList_def)

text \<open>
  C23. Any sequence of \<open>AddAddress\<close> and \<open>AddSlot\<close> calls on a new access list runs without an index
  panic and leaves a well-formed list: \<open>Contains\<close> answers exactly as the sets of addresses and of
  (address, slot) pairs the calls describe, and \<open>Len\<close> and \<open>StorageKeys\<close> are their sizes.
\<close>

theorem access_list_refines_sets:
  "\<exists>al A P. run_ops al_exec ops NewAccessList = Some al \<and> al_wf al \<and>
     fold al_spec ops ({}, {}) = (A, P) \<and>
     Contains al a s = Some (a \<in> A, (a, s) \<in> P) \<and> Len al = card A \<and> StorageKeys al = card P"
proof -
  from al_sets.run_refines[OF al_wf_new, of ops] obtain al where
    "run_ops al_exec ops NewAccessList = Some al" "al_wf al" "fold al_spec ops ({}, {}) = al_abs al"
    by (auto simp: al_abs_new)
  then show ?thesis
    using Contains_ok Len_card StorageKeys_card by (auto simp: al_abs_def)
qed

text \<open>
  C25. \<open>CombineTrueAccessList\<close> returns, for well-formed lists and whatever the iteration order of
  the merged list, and the result is a well-formed list that holds the union of the two.
\<close>

theorem CombineTrueAccessList_union:
  assumes "al_wf TrueAL" "al_wf NewAL"
  shows "\<exists>al. CombineTrueAccessList TrueAL NewAL = Some (al, True) \<and> al_wf al \<and>
     al_addrs al = al_addrs TrueAL \<union> al_addrs NewAL \<and> al_pairs al = al_pairs TrueAL \<union> al_pairs NewAL"
  using combine_loop_ok[OF assms(1) al_wf_entries[OF assms(2)]]
  by (auto simp: CombineTrueAccessList_def al_pairs_entries[OF assms(2)] al_addrs_def[of NewAL])

definition sample_list :: AccessList where
  "sample_list = \<lparr>Addresses = [(1, 0), (2, -1)], Slots = [[7, 8]]\<rparr>"

lemma sample_list_wf: "al_wf sample_list"
  by (auto simp: al_wf_def sample_list_def indices_def)

theorem CombineTrueAccessList_union_witness:
  "\<exists>al. CombineTrueAccessList sample_list sample_list = Some (al, True) \<and> al_pairs al = al_pairs sample_list"
  using CombineTrueAccessList_union[OF sample_list_wf sample_list_wf] by auto

text \<open>
  C33. \<open>ConflictDetection\<close> reports no conflict exactly when the observed list has no slot at all
  and each of its addresses is in the user's list; an observed list with a slot never passes, even
  when the user's list is identical.
\<close>

theorem ConflictDetection_passes_iff:
  assumes "al_wf NewAL"
  shows "(\<exists>c. ConflictDetection NewAL UserAL = Some c \<and> fst c) \<longleftrightarrow>
     al_pairs NewAL = {} \<and> al_addrs NewAL \<subseteq> al_addrs UserAL"
  unfolding ConflictDetection_def conflict_loop_passes[OF al_wf_entries_nonempty[OF assms]]
    al_pairs_empty_iff[OF assms]
  by (auto simp: al_addrs_def[of NewAL])

theorem ConflictDetection_passes_iff_witness:
  "al_wf sample_list \<and> \<not> (\<exists>c. ConflictDetection sample_list sample_list = Some c \<and> fst c)"
proof -
  have "(1, 7) \<in> al_pairs sample_list"
    by (simp add: al_pairs_def slots_of_def slot_at_def sample_list_def)
  then show ?thesis
    using ConflictDetection_passes_iff[OF sample_list_wf, of sample_list] sample_list_wf by blast
qed

end
