(* ===== verification/GoHeap.thy ===== *)
theory GoHeap
  imports Pangu_Prelude
begin

text \<open>
  The binary heap of Go's standard library (\<^verbatim>\<open>container/heap\<close>), on which the nonce heap and the
  price heaps of the pool and the heads of the block builder are built. \<open>h.Less(i, j)\<close> is
  \<open>lt (xs ! i) (xs ! j)\<close>; every user's \<open>Swap\<close>, \<open>Push\<close> and \<open>Pop\<close> exchange two positions, append and
  cut off the last element. Popping an empty heap is an index panic, \<open>None\<close>.
\<close>

definition heap_swap :: "nat \<Rightarrow> nat \<Rightarrow> 'a list \<Rightarrow> 'a list" where
  "heap_swap i j xs = xs[i := xs ! j, j := xs ! i]"

definition parent :: "nat \<Rightarrow> nat" where
  "parent j = (j - 1) div 2"

lemma parent_less [simp]: "0 < j \<Longrightarrow> parent j < j"
  by (simp add: parent_def)

lemma parent_0 [simp]: "parent 0 = 0"
  by (simp add: parent_def)

lemma parent_fixed [simp]: "parent j = j \<longleftrightarrow> j = 0" "j = parent j \<longleftrightarrow> j = 0"
  by (auto simp: parent_def)

lemma parent_eq_iff: "0 < c \<Longrightarrow> parent c = i \<longleftrightarrow> c = 2 * i + 1 \<or> c = 2 * i + 2"
  by (auto simp: parent_def)

function heap_up :: "('a \<Rightarrow> 'a \<Rightarrow> bool) \<Rightarrow> nat \<Rightarrow> 'a list \<Rightarrow> 'a list" where
  "heap_up lt j xs =
     (let i = parent j
      in if i = j \<or> \<not> lt (xs ! j) (xs ! i) then xs
         else heap_up lt i (heap_swap i j xs))"
  by pat_completeness auto
termination
  by (relation "measure (\<lambda>(_, j, _). j)") auto

text \<open>The smaller child of \<open>i\<close> below \<open>n\<close>, the left one on ties.\<close>

definition min_child :: "('a \<Rightarrow> 'a \<Rightarrow> bool) \<Rightarrow> nat \<Rightarrow> nat \<Rightarrow> 'a list \<Rightarrow> nat" where
  "min_child lt i n xs =
     (let j1 = 2 * i + 1; j2 = j1 + 1
      in if j2 < n \<and> lt (xs ! j2) (xs ! j1) then j2 else j1)"

lemma min_child_bounds:
  "\<not> n \<le> 2 * i + 1 \<Longrightarrow> i < min_child lt i n xs \<and> min_child lt i n xs < n \<and> parent (min_child lt i n xs) = i"
  by (auto simp: min_child_def Let_def parent_def)

function heap_down :: "('a \<Rightarrow> 'a \<Rightarrow> bool) \<Rightarrow> nat \<Rightarrow> nat \<Rightarrow> 'a list \<Rightarrow> nat \<times> 'a list" where
  "heap_down lt i n xs =
     (if 2 * i + 1 \<ge> n \<or> \<not> lt (xs ! min_child lt i n xs) (xs ! i) then (i, xs)
      else heap_down lt (min_child lt i n xs) n (heap_swap i (min_child lt i n xs) xs))"
  by pat_completeness auto
termination
proof (relation "measure (\<lambda>(_, i, n, _). n - i)", goal_cases)
  case (2 lt i n xs)
  with min_child_bounds[of n i lt xs] show ?case by auto
qed simp

declare heap_up.simps [simp del] heap_down.simps [simp del]

text \<open>\<open>Init\<close> runs \<open>down\<close> on \<open>n/2 - 1, \<dots>, 0\<close>.\<close>

fun heap_init_loop :: "('a \<Rightarrow> 'a \<Rightarrow> bool) \<Rightarrow> nat \<Rightarrow> nat \<Rightarrow> 'a list \<Rightarrow> 'a list" where
  "heap_init_loop lt n 0 xs = xs"
| "heap_init_loop lt n (Suc i) xs = heap_init_loop lt n i (snd (heap_down lt i n xs))"

definition heap_Init :: "('a \<Rightarrow> 'a \<Rightarrow> bool) \<Rightarrow> 'a list \<Rightarrow> 'a list" where
  "heap_Init lt xs = heap_init_loop lt (length xs) (length xs div 2) xs"

definition heap_Push :: "('a \<Rightarrow> 'a \<Rightarrow> bool) \<Rightarrow> 'a \<Rightarrow> 'a list \<Rightarrow> 'a list" where
  "heap_Push lt x xs = heap_up lt (length xs) (xs @ [x])"

definition heap_Pop :: "('a \<Rightarrow> 'a \<Rightarrow> bool) \<Rightarrow> 'a list \<Rightarrow> ('a \<times> 'a list) option" where
  "heap_Pop lt xs =
     (if xs = [] then None
      else let n = length xs - 1;
               ys = snd (heap_down lt 0 n (heap_swap 0 n xs))
           in Some (last ys, butlast ys))"

definition heap_Fix :: "('a \<Rightarrow> 'a \<Rightarrow> bool) \<Rightarrow> nat \<Rightarrow> nat \<Rightarrow> 'a list \<Rightarrow> 'a list" where
  "heap_Fix lt i n xs =
     (let (i', ys) = heap_down lt i n xs in if i' > i then ys else heap_up lt i ys)"

definition heap_Remove :: "('a \<Rightarrow> 'a \<Rightarrow> bool) \<Rightarrow> nat \<Rightarrow> 'a list \<Rightarrow> ('a \<times> 'a list) option" where
  "heap_Remove lt i xs =
     (if i \<ge> length xs then None
      else let n = length xs - 1;
               ys = (if n \<noteq> i then heap_Fix lt i n (heap_swap i n xs) else xs)
           in Some (last ys, butlast ys))"

text \<open>The heap property: no element comes before its parent.\<close>

definition is_heap :: "('a \<Rightarrow> 'a \<Rightarrow> bool) \<Rightarrow> 'a list \<Rightarrow> bool" where
  "is_heap lt xs \<longleftrightarrow> (\<forall>c<length xs. 0 < c \<longrightarrow> \<not> lt (xs ! c) (xs ! parent c))"

subsection \<open>The same elements, the same length\<close>

lemma length_heap_swap [simp]: "length (heap_swap i j xs) = length xs"
  by (simp add: heap_swap_def)

lemma nth_heap_swap:
  "i < length xs \<Longrightarrow> j < length xs \<Longrightarrow>
   heap_swap i j xs ! k = (if k = i then xs ! j else if k = j then xs ! i else xs ! k)"
  by (auto simp: heap_swap_def nth_list_update)

lemma mset_heap_swap [simp]: "i < length xs \<Longrightarrow> j < length xs \<Longrightarrow> mset (heap_swap i j xs) = mset xs"
  unfolding heap_swap_def by (rule mset_swap)

lemma heap_up_mset:
  "j < length xs \<Longrightarrow> length (heap_up lt j xs) = length xs \<and> mset (heap_up lt j xs) = mset xs"
proof (induction lt j xs rule: heap_up.induct)
  case (1 lt j xs)
  show ?case
  proof (cases "parent j = j \<or> \<not> lt (xs ! j) (xs ! parent j)")
    case True
    then show ?thesis by (simp add: heap_up.simps[of lt j])
  next
    case False
    then have "parent j < j" by (metis parent_0 parent_less gr0I)
    then show ?thesis using False 1
      by (simp add: heap_up.simps[of lt j] Let_def)
  qed
qed

lemma heap_down_mset:
  "i < length xs \<Longrightarrow> n \<le> length xs \<Longrightarrow>
   length (snd (heap_down lt i n xs)) = length xs \<and> mset (snd (heap_down lt i n xs)) = mset xs \<and>
   (\<forall>k\<ge>n. snd (heap_down lt i n xs) ! k = (xs ! k))"
proof (induction lt i n xs rule: heap_down.induct)
  case (1 lt i n xs)
  let ?j = "min_child lt i n xs"
  show ?case
  proof (cases "2 * i + 1 \<ge> n \<or> \<not> lt (xs ! ?j) (xs ! i)")
    case True
    then show ?thesis by (auto simp: heap_down.simps[of lt i])
  next
    case False
    then have j: "?j < n" "?j < length xs" "i < n" using 1(3) min_child_bounds[of n i lt xs] by auto
    from False have eq: "heap_down lt i n xs = heap_down lt ?j n (heap_swap i ?j xs)"
      by (simp add: heap_down.simps[of lt i])
    with 1(1)[OF False] j 1(2,3) show ?thesis
      unfolding eq by (simp add: nth_heap_swap)
  qed
qed

lemma heap_down_fst: "i \<le> fst (heap_down lt i n xs)"
proof (induction lt i n xs rule: heap_down.induct)
  case (1 lt i n xs)
  then show ?case
    using min_child_bounds[of n i lt xs] by (auto simp: heap_down.simps[of lt i])
qed

lemma heap_init_loop_mset:
  "n \<le> length xs \<Longrightarrow> i \<le> length xs \<Longrightarrow>
   length (heap_init_loop lt n i xs) = length xs \<and> mset (heap_init_loop lt n i xs) = mset xs"
proof (induction i arbitrary: xs)
  case (Suc i)
  with heap_down_mset[of i xs n lt] Suc.IH[of "snd (heap_down lt i n xs)"] show ?case by simp
qed simp

lemma mset_butlast_last: "xs \<noteq> [] \<Longrightarrow> mset xs = add_mset (last xs) (mset (butlast xs))"
  by (cases xs rule: rev_cases) simp_all

text \<open>Nothing at or beyond \<open>n\<close> moves.\<close>

lemma heap_up_nth: "j < length xs \<Longrightarrow> j < k \<Longrightarrow> heap_up lt j xs ! k = xs ! k"
proof (induction lt j xs rule: heap_up.induct)
  case (1 lt j xs)
  show ?case
  proof (cases "parent j = j \<or> \<not> lt (xs ! j) (xs ! parent j)")
    case False
    then have "parent j < j" by (metis parent_0 parent_less gr0I)
    then show ?thesis using False 1
      by (simp add: heap_up.simps[of lt j] Let_def nth_heap_swap)
  qed (simp add: heap_up.simps[of lt j])
qed

lemma heap_Fix_last:
  assumes "i < n" "n < length xs"
  shows "heap_Fix lt i n xs ! n = xs ! n"
  using assms heap_down_mset[of i xs n lt] heap_up_nth[of i "snd (heap_down lt i n xs)" n lt]
  by (simp add: heap_Fix_def split_beta)

subsection \<open>The heap order\<close>

text \<open>
  The contract a user of the heap keeps: \<open>Less\<close> is a strict weak order. \<open>le a b\<close> says that \<open>b\<close> does
  not come before \<open>a\<close>.
\<close>

locale heap_order =
  fixes lt :: "'a \<Rightarrow> 'a \<Rightarrow> bool"
  assumes asym: "lt a b \<Longrightarrow> \<not> lt b a"
    and neg_trans: "\<not> lt b a \<Longrightarrow> \<not> lt c b \<Longrightarrow> \<not> lt c a"
begin

definition edge :: "'a list \<Rightarrow> nat \<Rightarrow> bool" where
  "edge xs c \<longleftrightarrow> \<not> lt (xs ! c) (xs ! parent c)"

text \<open>
  All edges into \<open>0 < c < n\<close> whose upper end is at least \<open>m\<close>; and the same but for the edges at
  position \<open>i\<close>, whose children still do not come before its parent.
\<close>

definition heap_from :: "nat \<Rightarrow> nat \<Rightarrow> 'a list \<Rightarrow> bool" where
  "heap_from m n xs \<longleftrightarrow> (\<forall>c<n. 0 < c \<longrightarrow> m \<le> parent c \<longrightarrow> edge xs c)"

definition bridge :: "nat \<Rightarrow> nat \<Rightarrow> nat \<Rightarrow> 'a list \<Rightarrow> bool" where
  "bridge i m n xs \<longleftrightarrow>
     (\<forall>c<n. 0 < c \<longrightarrow> parent c = i \<longrightarrow> 0 < i \<longrightarrow> m \<le> parent i \<longrightarrow> \<not> lt (xs ! c) (xs ! parent i))"

definition hole :: "nat \<Rightarrow> nat \<Rightarrow> nat \<Rightarrow> 'a list \<Rightarrow> bool" where
  "hole i m n xs \<longleftrightarrow> bridge i m n xs \<and>
     (\<forall>c<n. 0 < c \<longrightarrow> c \<noteq> i \<longrightarrow> parent c \<noteq> i \<longrightarrow> m \<le> parent c \<longrightarrow> edge xs c)"

definition hole_above :: "nat \<Rightarrow> nat \<Rightarrow> nat \<Rightarrow> 'a list \<Rightarrow> bool" where
  "hole_above i m n xs \<longleftrightarrow> bridge i m n xs \<and>
     (\<forall>c<n. 0 < c \<longrightarrow> c \<noteq> i \<longrightarrow> m \<le> parent c \<longrightarrow> edge xs c)"

definition hole_below :: "nat \<Rightarrow> nat \<Rightarrow> nat \<Rightarrow> 'a list \<Rightarrow> bool" where
  "hole_below i m n xs \<longleftrightarrow> bridge i m n xs \<and>
     (\<forall>c<n. 0 < c \<longrightarrow> parent c \<noteq> i \<longrightarrow> m \<le> parent c \<longrightarrow> edge xs c)"

abbreviation heap :: "'a list \<Rightarrow> bool" where
  "heap xs \<equiv> heap_from 0 (length xs) xs"

lemma refl: "\<not> lt a a"
  using asym by blast

lemma hole_above_step:
  assumes h: "hole_above j 0 n xs" and n: "j < n" "n \<le> length xs" and j: "parent j < j"
    and lt: "lt (xs ! j) (xs ! parent j)"
  shows "hole_above (parent j) 0 n (heap_swap (parent j) j xs)"
proof -
  let ?p = "parent j" and ?ys = "heap_swap (parent j) j xs"
  have nth: "?ys ! k = (if k = ?p then xs ! j else if k = j then xs ! ?p else xs ! k)" for k
    using n j by (simp add: nth_heap_swap)
  have E: "\<not> lt (xs ! c) (xs ! parent c)" if "c < n" "0 < c" "c \<noteq> j" for c
    using h that by (simp add: hole_above_def edge_def)
  have B: "\<not> lt (xs ! c) (xs ! ?p)" if "c < n" "0 < c" "parent c = j" for c
    using h that j by (auto simp: hole_above_def bridge_def)
  have pp: "parent ?p < ?p" "?p < n" "parent ?p \<noteq> j" if "0 < ?p"
    using parent_less[OF that] n j by linarith+
  have "\<not> lt (?ys ! c) (?ys ! parent ?p)" if c: "c < n" "0 < c" "parent c = ?p" "0 < ?p" for c
  proof -
    have "\<not> lt (xs ! ?p) (xs ! parent ?p)" using E[of ?p] pp c j by simp
    moreover have "c \<noteq> j \<Longrightarrow> \<not> lt (xs ! c) (xs ! ?p)" using E[of c] c by simp
    moreover have "c \<noteq> ?p" using c parent_less[of c] by simp
    ultimately show ?thesis using pp c j neg_trans[of "xs ! ?p" "xs ! parent ?p" "xs ! c"] by (auto simp: nth)
  qed
  moreover have "\<not> lt (?ys ! c) (?ys ! parent c)" if c: "c < n" "0 < c" "c \<noteq> ?p" for c
  proof -
    consider "c = j" | "c \<noteq> j" "parent c = ?p" | "c \<noteq> j" "parent c = j" | "c \<noteq> j" "parent c \<noteq> ?p" "parent c \<noteq> j" by blast
    then show ?thesis
    proof cases
      case 2
      then show ?thesis using E[of c] c neg_trans[of "xs ! ?p" "xs ! j" "xs ! c"] asym[OF lt] by (simp add: nth)
    qed (use c j E[of c] B[of c] asym[OF lt] in \<open>simp_all add: nth\<close>)
  qed
  ultimately show ?thesis
    by (simp add: hole_above_def bridge_def edge_def)
qed

lemma heap_up_ok:
  "hole_above j 0 n xs \<Longrightarrow> j < n \<Longrightarrow> n \<le> length xs \<Longrightarrow> heap_from 0 n (heap_up lt j xs)"
proof (induction j arbitrary: xs rule: less_induct)
  case (less j)
  show ?case
  proof (cases "parent j = j \<or> \<not> lt (xs ! j) (xs ! parent j)")
    case True
    have "edge xs c" if "c < n" "0 < c" for c
      using True less.prems(1) that refl by (cases "c = j") (auto simp: hole_above_def edge_def)
    then show ?thesis using True
      by (auto simp: heap_from_def heap_up.simps[of lt j] Let_def)
  next
    case False
    then have p: "parent j < j" by (metis parent_0 parent_less gr0I)
    with False less.IH[OF p hole_above_step] less.prems show ?thesis
      by (simp add: heap_up.simps[of lt j] Let_def)
  qed
qed

lemma min_child_le:
  assumes "c < n" "0 < c" "parent c = i"
  shows "\<not> lt (xs ! c) (xs ! min_child lt i n xs)"
  using assms refl asym by (auto simp: min_child_def Let_def parent_eq_iff)

text \<open>One step of \<open>down\<close> leaves the only broken edges below the position it moves to.\<close>

lemma hole_step:
  assumes h: "hole i m n xs" and n: "n \<le> length xs" and i: "\<not> n \<le> 2 * i + 1"
    and lt: "lt (xs ! min_child lt i n xs) (xs ! i)"
  shows "hole_below (min_child lt i n xs) m n (heap_swap i (min_child lt i n xs) xs)"
proof -
  let ?j = "min_child lt i n xs" and ?ys = "heap_swap i (min_child lt i n xs) xs"
  have j: "i < ?j" "?j < n" "parent ?j = i" using min_child_bounds[OF i] by auto
  have nth: "?ys ! k = (if k = i then xs ! ?j else if k = ?j then xs ! i else xs ! k)" for k
    using n j by (simp add: nth_heap_swap)
  have E: "\<not> lt (xs ! c) (xs ! parent c)" if "c < n" "0 < c" "c \<noteq> i" "parent c \<noteq> i" "m \<le> parent c" for c
    using h that by (simp add: hole_def edge_def)
  have B: "\<not> lt (xs ! c) (xs ! parent i)" if "c < n" "0 < c" "parent c = i" "0 < i" "m \<le> parent i" for c
    using h that by (auto simp: hole_def bridge_def)
  have up: "parent c < c" if "0 < c" for c using that by simp
  have "\<not> lt (?ys ! c) (?ys ! i)" if c: "c < n" "0 < c" "parent c = ?j" "m \<le> i" for c
    using E[of c] up[of c] j c by (auto simp: nth)
  moreover have "\<not> lt (?ys ! c) (?ys ! parent c)" if c: "c < n" "0 < c" "parent c \<noteq> ?j" "m \<le> parent c" for c
  proof -
    consider "c = i" | "c \<noteq> i" "parent c = i" "c = ?j" | "c \<noteq> i" "parent c = i" "c \<noteq> ?j" | "c \<noteq> i" "parent c \<noteq> i" by blast
    then show ?thesis
    proof cases
      case 1
      then show ?thesis using B[of ?j] up[of i] j c by (auto simp: nth)
    next
      case 2
      then show ?thesis using asym[OF lt] j by (simp add: nth)
    next
      case 3
      then show ?thesis using min_child_le[of c n i xs] c by (simp add: nth)
    next
      case 4
      then show ?thesis using E[of c] j c up[of c] by (auto simp: nth)
    qed
  qed
  ultimately show ?thesis
    using j by (simp add: hole_below_def bridge_def edge_def)
qed

lemma hole_below_hole: "hole_below i m n xs \<Longrightarrow> hole i m n xs"
  by (simp add: hole_below_def hole_def)

lemma hole_still:
  assumes "hole i m n xs" "n \<le> 2 * i + 1 \<or> \<not> lt (xs ! min_child lt i n xs) (xs ! i)"
  shows "hole_above i m n xs"
proof -
  have "edge xs c" if c: "c < n" "0 < c" "parent c = i" for c
  proof -
    have "\<not> n \<le> 2 * i + 1" using c by (auto simp: parent_eq_iff)
    then show ?thesis
      using assms(2) c min_child_le[OF c, of xs] neg_trans[of "xs ! min_child lt i n xs" "xs ! i" "xs ! c"]
      by (auto simp: edge_def)
  qed
  with assms(1) show ?thesis by (auto simp: hole_def hole_above_def)
qed

lemma heap_down_ok:
  "hole_below i m n xs \<Longrightarrow> n \<le> length xs \<Longrightarrow> heap_from m n (snd (heap_down lt i n xs))"
proof (induction "n - i" arbitrary: i xs rule: less_induct)
  case less
  show ?case
  proof (cases "n \<le> 2 * i + 1 \<or> \<not> lt (xs ! min_child lt i n xs) (xs ! i)")
    case True
    note above = hole_still[OF hole_below_hole[OF less.prems(1)] True]
    have "edge xs c" if "c < n" "0 < c" "m \<le> parent c" for c
      using that above less.prems(1) by (cases "parent c = i") (auto simp: hole_above_def hole_below_def)
    then have "heap_from m n xs" by (simp add: heap_from_def)
    with True show ?thesis by (simp add: heap_down.simps[of lt i])
  next
    case False
    let ?j = "min_child lt i n xs"
    from False have "n - ?j < n - i" using min_child_bounds[of n i lt xs] by auto
    from less.hyps[OF this hole_step[OF hole_below_hole[OF less.prems(1)]]] False less.prems(2)
    show ?thesis by (simp add: heap_down.simps[of lt i])
  qed
qed

lemma heap_from_0_hole: "heap_from 0 n xs \<Longrightarrow> i < n \<Longrightarrow> n \<le> length xs \<Longrightarrow> hole i 0 n (xs[i := x])"
proof -
  assume h: "heap_from 0 n xs" and i: "i < n" "n \<le> length xs"
  have E: "\<not> lt (xs ! c) (xs ! parent c)" if "c < n" "0 < c" for c
    using h that by (simp add: heap_from_def edge_def)
  have "\<not> lt (xs ! c) (xs ! parent i)" if "c < n" "0 < c" "parent c = i" "0 < i" for c
    using E[of c] E[of i] that i neg_trans[of "xs ! i" "xs ! parent i" "xs ! c"] by simp
  moreover have "c \<noteq> i" if "parent c = i" "0 < c" for c using that by auto
  ultimately show ?thesis
    using E i by (auto simp: hole_def bridge_def edge_def nth_list_update)
qed

lemma heap_Push_ok:
  assumes "heap xs"
  shows "heap (heap_Push lt x xs)" "mset (heap_Push lt x xs) = add_mset x (mset xs)"
proof -
  let ?ys = "xs @ [x]" and ?n = "length xs"
  have "\<not> lt (?ys ! c) (?ys ! parent c)" if "c < Suc ?n" "0 < c" "c \<noteq> ?n" for c
  proof -
    have "c < ?n" "parent c < ?n" using that parent_less[OF that(2)] by linarith+
    then show ?thesis using assms that by (simp add: heap_from_def edge_def nth_append)
  qed
  moreover have "parent c \<noteq> ?n" if "c < Suc ?n" "0 < c" for c
    using parent_less[OF that(2)] that by linarith
  ultimately have "hole_above ?n 0 (Suc ?n) ?ys"
    by (auto simp: hole_above_def bridge_def edge_def)
  from heap_up_ok[OF this] heap_up_mset[of ?n ?ys lt]
  show "heap (heap_Push lt x xs)" "mset (heap_Push lt x xs) = add_mset x (mset xs)"
    by (auto simp: heap_Push_def)
qed

lemma heap_init_loop_ok:
  "heap_from i (length xs) xs \<Longrightarrow> i \<le> length xs \<Longrightarrow> heap_from 0 (length xs) (heap_init_loop lt (length xs) i xs)"
proof (induction i arbitrary: xs)
  case (Suc i)
  let ?ys = "snd (heap_down lt i (length xs) xs)"
  have "\<not> i \<le> parent i" if "0 < i" using parent_less[OF that] by linarith
  moreover have "edge xs c" if "c < length xs" "0 < c" "parent c \<noteq> i" "i \<le> parent c" for c
    using Suc.prems(1) that by (auto simp: heap_from_def)
  ultimately have "hole_below i i (length xs) xs"
    by (auto simp: hole_below_def bridge_def)
  from heap_down_ok[OF this order.refl] heap_down_mset[of i xs "length xs" lt] Suc.prems(2)
  show ?case using Suc.IH[of ?ys] by simp
qed simp

lemma heap_Init_ok: "heap (heap_Init lt xs)" "mset (heap_Init lt xs) = mset xs"
proof -
  have "\<not> length xs div 2 \<le> parent c" if "c < length xs" "0 < c" for c
    using that by (auto simp: parent_def)
  then have "heap_from (length xs div 2) (length xs) xs" by (auto simp: heap_from_def)
  from heap_init_loop_ok[OF this] heap_init_loop_mset[of "length xs" xs "length xs div 2" lt]
  show "heap (heap_Init lt xs)" "mset (heap_Init lt xs) = mset xs"
    by (simp_all add: heap_Init_def)
qed

lemma heap_min:
  assumes "heap_from 0 n xs" "k < n"
  shows "\<not> lt (xs ! k) (xs ! 0)"
  using assms(2)
proof (induction k rule: less_induct)
  case (less k)
  show ?case
  proof (cases "k = 0")
    case False
    then have "parent k < k" by simp
    with less have "\<not> lt (xs ! parent k) (xs ! 0)" by simp
    moreover have "\<not> lt (xs ! k) (xs ! parent k)"
      using assms(1) less.prems False by (simp add: heap_from_def edge_def)
    ultimately show ?thesis by (rule neg_trans)
  qed (simp add: refl)
qed

lemma heap_from_butlast:
  "heap_from 0 (length xs - 1) xs \<Longrightarrow> heap (butlast xs)"
  unfolding heap_from_def edge_def
proof clarsimp
  fix c assume h: "\<forall>c<length xs - Suc 0. 0 < c \<longrightarrow> \<not> lt (xs ! c) (xs ! parent c)"
    "c < length xs - Suc 0" "0 < c" "lt (butlast xs ! c) (butlast xs ! parent c)"
  have "parent c < length xs - 1" using h(2) parent_less[OF h(3)] by linarith
  with h show False by (simp add: nth_butlast)
qed

lemma heap_Pop_ok:
  assumes "heap xs" "xs \<noteq> []"
  shows "\<exists>h. heap_Pop lt xs = Some (hd xs, h) \<and> heap h \<and> mset xs = add_mset (hd xs) (mset h)"
proof -
  let ?n = "length xs - 1"
  let ?zs = "heap_swap 0 ?n xs"
  let ?ys = "snd (heap_down lt 0 ?n ?zs)"
  have len: "0 < length xs" "?n < length xs" using assms(2) by auto
  have nth: "?zs ! k = (if k = 0 then xs ! ?n else if k = ?n then xs ! 0 else xs ! k)" for k
    using len by (simp add: nth_heap_swap)
  have "\<not> lt (?zs ! c) (?zs ! parent c)" if "c < ?n" "0 < c" "parent c \<noteq> 0" for c
  proof -
    have "c < length xs" "parent c \<noteq> ?n" using that parent_less[OF that(2)] by linarith+
    then show ?thesis unfolding nth using assms(1) that by (auto simp: heap_from_def edge_def)
  qed
  then have "hole_below 0 0 ?n ?zs"
    by (simp add: hole_below_def bridge_def edge_def)
  then have h: "heap_from 0 ?n ?ys"
    by (rule heap_down_ok) simp
  have ys: "length ?ys = length xs" "mset ?ys = mset xs" "?ys ! ?n = xs ! 0"
    using heap_down_mset[of 0 ?zs ?n lt] len nth[of ?n] by auto
  then have ne: "?ys \<noteq> []" using len by auto
  have "last ?ys = hd xs"
    using ne ys assms(2) by (simp add: last_conv_nth hd_conv_nth)
  moreover have "heap (butlast ?ys)"
    using heap_from_butlast[of ?ys] h ys(1) by simp
  moreover have "mset ?ys = add_mset (last ?ys) (mset (butlast ?ys))"
    by (rule mset_butlast_last[OF ne])
  ultimately show ?thesis
    using assms(2) ys(2) by (simp add: heap_Pop_def Let_def)
qed

lemma heap_Fix_hole:
  assumes h: "hole i 0 n xs" and n: "i < n" "n \<le> length xs"
  shows "heap_from 0 n (heap_Fix lt i n xs) \<and> length (heap_Fix lt i n xs) = length xs \<and>
     mset (heap_Fix lt i n xs) = mset xs"
proof (cases "n \<le> 2 * i + 1 \<or> \<not> lt (xs ! min_child lt i n xs) (xs ! i)")
  case True
  then have "heap_down lt i n xs = (i, xs)" by (simp add: heap_down.simps[of lt i])
  with heap_up_ok[OF hole_still[OF h True] n] heap_up_mset[of i xs lt] n show ?thesis
    by (simp add: heap_Fix_def)
next
  case False
  let ?j = "min_child lt i n xs"
  have j: "i < ?j" "?j < n" using False min_child_bounds[of n i lt xs] by auto
  from False have eq: "heap_down lt i n xs = heap_down lt ?j n (heap_swap i ?j xs)"
    by (simp add: heap_down.simps[of lt i])
  have "i < fst (heap_down lt i n xs)"
    using j heap_down_fst[of ?j lt n "heap_swap i ?j xs"] unfolding eq by linarith
  then have fixed: "heap_Fix lt i n xs = snd (heap_down lt ?j n (heap_swap i ?j xs))"
    by (simp add: heap_Fix_def split_beta flip: eq)
  have "heap_from 0 n (heap_Fix lt i n xs)"
    unfolding fixed by (rule heap_down_ok[OF hole_step[OF h]]) (use False n in auto)
  moreover have "length (heap_Fix lt i n xs) = length xs \<and> mset (heap_Fix lt i n xs) = mset xs"
    unfolding fixed using heap_down_mset[of ?j "heap_swap i ?j xs" n lt] j n by simp
  ultimately show ?thesis by simp
qed

lemma heap_Fix_ok:
  assumes "heap xs" "i < length xs"
  shows "heap (heap_Fix lt i (length xs) (xs[i := x])) \<and>
     mset (heap_Fix lt i (length xs) (xs[i := x])) = mset (xs[i := x])"
  using heap_Fix_hole[OF heap_from_0_hole[OF assms(1,2) order.refl]] assms(2) by simp

lemma heap_Remove_ok:
  assumes "heap xs" "i < length xs"
  shows "\<exists>h. heap_Remove lt i xs = Some (xs ! i, h) \<and> heap h \<and> mset xs = add_mset (xs ! i) (mset h)"
proof -
  let ?n = "length xs - 1"
  let ?zs = "heap_swap i ?n xs"
  let ?ys = "if ?n \<noteq> i then heap_Fix lt i ?n ?zs else xs"
  have ys: "heap_from 0 ?n ?ys \<and> length ?ys = length xs \<and> mset ?ys = mset xs \<and> ?ys ! ?n = xs ! i"
  proof (cases "?n = i")
    case True
    then show ?thesis using assms by (auto simp: heap_from_def)
  next
    case False
    have h: "heap_from 0 ?n xs" using assms(1) by (simp add: heap_from_def)
    have "hole i 0 ?n (xs[i := xs ! ?n])"
      by (rule heap_from_0_hole[OF h]) (use assms False in auto)
    moreover have "hole i 0 ?n ?zs = hole i 0 ?n (xs[i := xs ! ?n])"
    proof -
      have "?zs ! c = xs[i := xs ! ?n] ! c" if "c < ?n" for c
        using that assms(2) by (simp add: heap_swap_def)
      moreover have "parent c < ?n" if "c < ?n" for c
        using that parent_less[of c] by (cases "c = 0") (simp, linarith)
      moreover have "i < ?n" using assms(2) False by linarith
      ultimately show ?thesis by (simp add: hole_def bridge_def edge_def)
    qed
    ultimately have "hole i 0 ?n ?zs" by simp
    from heap_Fix_hole[OF this] assms False heap_Fix_last[of i ?n ?zs lt] show ?thesis
      by (simp add: nth_heap_swap)
  qed
  then have ne: "?ys \<noteq> []" using assms(2) by auto
  have "last ?ys = xs ! i" using ys last_conv_nth[OF ne] by simp
  moreover have "heap (butlast ?ys)" using heap_from_butlast[of ?ys] ys by simp
  moreover have "mset ?ys = add_mset (last ?ys) (mset (butlast ?ys))" by (rule mset_butlast_last[OF ne])
  moreover have "heap_Remove lt i xs = Some (last ?ys, butlast ?ys)"
    using assms(2) by (simp add: heap_Remove_def Let_def)
  ultimately show ?thesis
    using ys by (intro exI[of _ "butlast ?ys"]) metis
qed

text \<open>The contract of the heap, as its users see it.\<close>

lemma heap_iff: "heap xs \<longleftrightarrow> is_heap lt xs"
  by (simp add: heap_from_def edge_def is_heap_def)

lemmas Init_ok = heap_Init_ok[unfolded heap_iff]
lemmas Push_ok = heap_Push_ok[unfolded heap_iff]
lemmas Pop_ok = heap_Pop_ok[unfolded heap_iff]
lemmas Remove_ok = heap_Remove_ok[unfolded heap_iff]
lemmas Fix_ok = heap_Fix_ok[unfolded heap_iff]

lemma hd_min:
  assumes "is_heap lt xs" "x \<in> set xs"
  shows "\<not> lt x (hd xs)"
proof -
  from assms(2) obtain k where "k < length xs" "xs ! k = x" by (auto simp: in_set_conv_nth)
  with heap_min[of "length xs" xs k] assms show ?thesis
    using heap_iff[of xs] by (cases xs) simp_all
qed

end

end
