(* ===== verification/Transaction.thy ===== *)
theory Transaction
  imports AccessList GoHeap
begin

text \<open>
  Transactions, \<^verbatim>\<open>core/types/PanguTransaction.go\<close> and \<^verbatim>\<open>core/types/transaction.go\<close>, and the intrinsic gas
  of a message, \<^verbatim>\<open>core/transition.go\<close>. A \<open>PanguTransaction\<close> may have nil pointers; a \<open>Transaction\<close>
  holds the deep copy that \<open>NewTx\<close> makes, whose amounts and access list are set. The caches \<open>hash\<close>
  and \<open>size\<close> hold what Keccak and the encoder computed for the transaction.
\<close>

record PanguTransaction =
  pt_To :: "address option"
  pt_Nonce :: u64
  pt_Value :: "int option"
  pt_GasLimit :: u64
  pt_FeeCap :: "int option"
  pt_TipCap :: "int option"
  pt_ChainID :: "int option"
  pt_SigAlgo :: u8
  pt_Signature :: bytes
  pt_EncAlgo :: u8
  pt_EncContent :: bytes
  pt_VmType :: u8
  pt_Data :: bytes
  pt_AccessList :: "AccessList option"

record TxData =
  d_To :: "address option"
  d_Nonce :: u64
  d_Value :: int
  d_GasLimit :: u64
  d_FeeCap :: int
  d_TipCap :: int
  d_ChainID :: int
  d_SigAlgo :: u8
  d_Signature :: bytes
  d_EncAlgo :: u8
  d_EncContent :: bytes
  d_VmType :: u8
  d_Data :: bytes
  d_AccessList :: AccessList

text \<open>A nil amount is copied as zero; a nil access list is dereferenced, which panics.\<close>

definition copy_amount :: "int option \<Rightarrow> int" where
  "copy_amount p = (case p of None \<Rightarrow> 0 | Some v \<Rightarrow> v)"

definition copy_tx :: "PanguTransaction \<Rightarrow> TxData option" where
  "copy_tx tx =
     do { al \<leftarrow> pt_AccessList tx;
          Some \<lparr>d_To = pt_To tx, d_Nonce = pt_Nonce tx, d_Value = copy_amount (pt_Value tx),
               d_GasLimit = pt_GasLimit tx, d_FeeCap = copy_amount (pt_FeeCap tx),
               d_TipCap = copy_amount (pt_TipCap tx), d_ChainID = copy_amount (pt_ChainID tx),
               d_SigAlgo = pt_SigAlgo tx, d_Signature = pt_Signature tx,
               d_EncAlgo = 0, d_EncContent = [], d_VmType = 0,
               d_Data = pt_Data tx, d_AccessList = al\<rparr> }"

definition effectiveGasPrice :: "TxData \<Rightarrow> int option \<Rightarrow> int" where
  "effectiveGasPrice tx baseFee =
     (case baseFee of None \<Rightarrow> d_FeeCap tx
      | Some b \<Rightarrow> let tip = d_FeeCap tx - b;
                      tip = (if tip > d_TipCap tx then d_TipCap tx else tip)
                  in tip + b)"

text \<open>
  The cache \<open>from\<close> is the \<open>sigCache\<close> that \<open>Sender\<close> stores: the chain id of the signer and the
  address it recovered.
\<close>

record Transaction =
  tx_inner :: TxData
  tx_time :: nat
  tx_hash :: hash
  tx_size :: u64
  tx_from :: "(int \<times> address) option"

definition NewTx :: "PanguTransaction \<Rightarrow> nat \<Rightarrow> hash \<Rightarrow> u64 \<Rightarrow> Transaction option" where
  "NewTx inner now h sz =
     do { d \<leftarrow> copy_tx inner;
          Some \<lparr>tx_inner = d, tx_time = now, tx_hash = h, tx_size = sz, tx_from = None\<rparr> }"

definition PanguTxType :: u8 where "PanguTxType = 1"

definition Type :: "Transaction \<Rightarrow> u8" where "Type tx = PanguTxType"
definition Data :: "Transaction \<Rightarrow> bytes" where "Data tx = d_Data (tx_inner tx)"
definition GasLimit :: "Transaction \<Rightarrow> u64" where "GasLimit tx = d_GasLimit (tx_inner tx)"
definition GasPrice :: "Transaction \<Rightarrow> int" where "GasPrice tx = d_FeeCap (tx_inner tx)"
definition GasTipCap :: "Transaction \<Rightarrow> int" where "GasTipCap tx = d_TipCap (tx_inner tx)"
definition GasFeeCap :: "Transaction \<Rightarrow> int" where "GasFeeCap tx = d_FeeCap (tx_inner tx)"
definition Value :: "Transaction \<Rightarrow> int" where "Value tx = d_Value (tx_inner tx)"
definition Nonce :: "Transaction \<Rightarrow> u64" where "Nonce tx = d_Nonce (tx_inner tx)"
definition To :: "Transaction \<Rightarrow> address option" where "To tx = d_To (tx_inner tx)"
definition TxAccessList :: "Transaction \<Rightarrow> AccessList" where "TxAccessList tx = d_AccessList (tx_inner tx)"

definition Cost :: "Transaction \<Rightarrow> int" where
  "Cost tx = GasPrice tx * uint (GasLimit tx) + Value tx"

text \<open>\<open>big.Int.Cmp\<close>.\<close>

definition big_cmp :: "int \<Rightarrow> int \<Rightarrow> int" where
  "big_cmp x y = (if x < y then -1 else if x = y then 0 else 1)"

definition GasFeeCapCmp :: "Transaction \<Rightarrow> Transaction \<Rightarrow> int" where
  "GasFeeCapCmp tx other = big_cmp (GasFeeCap tx) (GasFeeCap other)"

definition GasFeeCapIntCmp :: "Transaction \<Rightarrow> int \<Rightarrow> int" where
  "GasFeeCapIntCmp tx other = big_cmp (GasFeeCap tx) other"

definition GasTipCapCmp :: "Transaction \<Rightarrow> Transaction \<Rightarrow> int" where
  "GasTipCapCmp tx other = big_cmp (GasTipCap tx) (GasTipCap other)"

definition GasTipCapIntCmp :: "Transaction \<Rightarrow> int \<Rightarrow> int" where
  "GasTipCapIntCmp tx other = big_cmp (GasTipCap tx) other"

datatype tx_error = ErrInvalidSig | ErrTxTypeNotSupported | ErrGasFeeCapTooLow | ErrMaxInitCodeSizeExceeded
  | ErrFeeCapVeryHigh | ErrTipVeryHigh | ErrTipAboveFeeCap | ErrIntrinsicGas | ErrGasUintOverflow
  | ErrNonceTooLow | ErrNonceTooHigh | ErrInsufficientFunds | ErrInvalidChainId | ErrInvalidSigAlgo

definition BigMin :: "int \<Rightarrow> int \<Rightarrow> int" where
  "BigMin x y = (if big_cmp x y > 0 then y else x)"

definition EffectiveGasTip :: "Transaction \<Rightarrow> int option \<Rightarrow> int \<times> tx_error option" where
  "EffectiveGasTip tx baseFee =
     (case baseFee of None \<Rightarrow> (GasTipCap tx, None)
      | Some b \<Rightarrow> (BigMin (GasTipCap tx) (GasFeeCap tx - b),
                   if big_cmp (GasFeeCap tx) b = -1 then Some ErrGasFeeCapTooLow else None))"

definition EffectiveGasTipValue :: "Transaction \<Rightarrow> int option \<Rightarrow> int" where
  "EffectiveGasTipValue tx baseFee = fst (EffectiveGasTip tx baseFee)"

definition EffectiveGasTipCmp :: "Transaction \<Rightarrow> Transaction \<Rightarrow> int option \<Rightarrow> int" where
  "EffectiveGasTipCmp tx other baseFee =
     (if baseFee = None then GasTipCapCmp tx other
      else big_cmp (EffectiveGasTipValue tx baseFee) (EffectiveGasTipValue other baseFee))"

definition EffectiveGasTipIntCmp :: "Transaction \<Rightarrow> int \<Rightarrow> int option \<Rightarrow> int" where
  "EffectiveGasTipIntCmp tx other baseFee =
     (if baseFee = None then GasTipCapIntCmp tx other
      else big_cmp (EffectiveGasTipValue tx baseFee) other)"

text \<open>
  The set of hashes to remove is a Go map; only membership in it is used.
\<close>

definition TxDifference :: "Transaction list \<Rightarrow> Transaction list \<Rightarrow> Transaction list" where
  "TxDifference a b = (let remove = map tx_hash b in filter (\<lambda>tx. tx_hash tx \<notin> set remove) a)"

definition HashDifference :: "hash list \<Rightarrow> hash list \<Rightarrow> hash list" where
  "HashDifference a b = filter (\<lambda>h. h \<notin> set b) a"

subsection \<open>Intrinsic gas\<close>

definition TxGas :: u64 where "TxGas = 21000"
definition TxGasContractCreation :: u64 where "TxGasContractCreation = 53000"
definition TxDataZeroGas :: u64 where "TxDataZeroGas = 4"
definition TxDataNonZeroGasFrontier :: u64 where "TxDataNonZeroGasFrontier = 68"
definition TxDataNonZeroGasEIP2028 :: u64 where "TxDataNonZeroGasEIP2028 = 16"
definition InitCodeWordGas :: u64 where "InitCodeWordGas = 2"
definition TxAccessListAddressGas :: u64 where "TxAccessListAddressGas = 2400"
definition TxAccessListStorageKeyGas :: u64 where "TxAccessListStorageKeyGas = 1900"

abbreviation MaxUint64 :: u64 where "MaxUint64 \<equiv> - 1"

definition toWordSize :: "u64 \<Rightarrow> u64" where
  "toWordSize sz = (if sz > MaxUint64 - 31 then MaxUint64 div 32 + 1 else (sz + 31) div 32)"

definition count_nz :: "bytes \<Rightarrow> u64" where
  "count_nz data = fold (\<lambda>byt nz. if byt \<noteq> 0 then nz + 1 else nz) data 0"

text \<open>\<open>(*Transaction).IntrinsicGas\<close>, used by the pool.\<close>

definition tx_IntrinsicGas :: "Transaction \<Rightarrow> tx_error + u64" where
  "tx_IntrinsicGas tx =
     (let gas = TxGas; data = Data tx; dataLen = of_nat (length data) :: u64;
          addAL = (\<lambda>gas. gas + of_nat (Len (TxAccessList tx)) * TxAccessListAddressGas
                             + of_nat (StorageKeys (TxAccessList tx)) * TxAccessListStorageKeyGas)
      in if dataLen > 0 then
           let nz = count_nz data; nonZeroGas = TxDataNonZeroGasEIP2028
           in if (MaxUint64 - gas) div nonZeroGas < nz then Inl ErrGasUintOverflow
              else let gas = gas + nz * nonZeroGas; z = dataLen - nz
              in if (MaxUint64 - gas) div TxDataZeroGas < z then Inl ErrGasUintOverflow
                 else let gas = gas + z * TxDataZeroGas
                 in if To tx = None then
                      let lenWords = toWordSize dataLen
                      in if (MaxUint64 - gas) div InitCodeWordGas < lenWords then Inl ErrGasUintOverflow
                         else Inr (addAL (gas + lenWords * InitCodeWordGas))
                    else Inr (addAL gas)
         else Inr (addAL gas))"

text \<open>
  \<open>IntrinsicGas\<close> of \<^verbatim>\<open>core/transition.go\<close>, used at execution. The test for a nil \<open>Addresses\<close> map leaves
  out the two additions for an access list without addresses, where both are zero.
\<close>

definition IntrinsicGas :: "bytes \<Rightarrow> AccessList \<Rightarrow> bool \<Rightarrow> tx_error + u64" where
  "IntrinsicGas data accessList isContractCreation =
     (let gas = (if isContractCreation then TxGasContractCreation else TxGas);
          dataLen = of_nat (length data) :: u64;
          addAL = (\<lambda>gas. gas + of_nat (Len accessList) * TxAccessListAddressGas
                             + of_nat (StorageKeys accessList) * TxAccessListStorageKeyGas)
      in if dataLen > 0 then
           let nz = count_nz data; nonZeroGas = TxDataNonZeroGasFrontier
           in if (MaxUint64 - gas) div nonZeroGas < nz then Inl ErrGasUintOverflow
              else let gas = gas + nz * nonZeroGas; z = dataLen - nz
              in if (MaxUint64 - gas) div TxDataZeroGas < z then Inl ErrGasUintOverflow
                 else let gas = gas + z * TxDataZeroGas
                 in if isContractCreation then
                      let lenWords = toWordSize dataLen
                      in if (MaxUint64 - gas) div InitCodeWordGas < lenWords then Inl ErrGasUintOverflow
                         else Inr (addAL (gas + lenWords * InitCodeWordGas))
                    else Inr (addAL gas)
         else Inr (addAL gas))"

text \<open>The exact amounts, over the integers.\<close>

definition nonzero_bytes :: "bytes \<Rightarrow> int" where
  "nonzero_bytes data = int (length (filter (\<lambda>b. b \<noteq> 0) data))"

definition data_gas_spec :: "int \<Rightarrow> int \<Rightarrow> bool \<Rightarrow> bytes \<Rightarrow> int" where
  "data_gas_spec base nzGas creation data =
     base + nzGas * nonzero_bytes data + 4 * (int (length data) - nonzero_bytes data)
     + (if creation then 2 * ((int (length data) + 31) div 32) else 0)"

definition access_gas_spec :: "AccessList \<Rightarrow> int" where
  "access_gas_spec al = 2400 * int (Len al) + 1900 * int (StorageKeys al)"

lemma le_div_int_iff:
  fixes n a c :: int
  assumes "0 < c"
  shows "n \<le> a div c \<longleftrightarrow> n * c \<le> a"
proof
  assume "n \<le> a div c"
  then have "n * c \<le> (a div c) * c" using assms by (simp add: mult_right_mono)
  also have "\<dots> \<le> a" using assms div_mult_mod_eq[of a c] pos_mod_sign[of c a] by linarith
  finally show "n * c \<le> a" .
next
  assume "n * c \<le> a"
  then have "(n * c) div c \<le> a div c" using assms by (rule zdiv_mono1)
  then show "n \<le> a div c" using assms by simp
qed

lemma checked_mul_add:
  fixes g c n :: u64
  assumes "0 < uint c"
  shows "(MaxUint64 - g) div c < n \<longleftrightarrow> \<not> uint g + uint n * uint c < 2 ^ 64"
    and "uint g + uint n * uint c < 2 ^ 64 \<Longrightarrow> uint (g + n * c) = uint g + uint n * uint c"
proof -
  have m: "uint (MaxUint64 - g) = 2 ^ 64 - 1 - uint g"
  proof -
    have "0 \<le> 2 ^ 64 - 1 - uint g" "2 ^ 64 - 1 - uint g < 2 ^ 64"
      using uint_lt2p[of g] uint_ge_0[of g] by (simp, linarith)
    then show ?thesis
      by (simp add: uint_word_ariths(2) unsigned_minus_1_eq_mask mask_eq_exp_minus_1)
  qed
  have "(MaxUint64 - g) div c < n \<longleftrightarrow> (2 ^ 64 - 1 - uint g) div uint c < uint n"
    by (simp add: word_less_def uint_div_distrib m)
  also have "\<dots> \<longleftrightarrow> \<not> uint n \<le> (2 ^ 64 - 1 - uint g) div uint c" by linarith
  also have "uint n \<le> (2 ^ 64 - 1 - uint g) div uint c \<longleftrightarrow> uint n * uint c \<le> 2 ^ 64 - 1 - uint g"
    using assms by (rule le_div_int_iff)
  finally show "(MaxUint64 - g) div c < n \<longleftrightarrow> \<not> uint g + uint n * uint c < 2 ^ 64"
    by linarith
  assume lt: "uint g + uint n * uint c < 2 ^ 64"
  then have "uint n * uint c < 2 ^ 64" using uint_ge_0[of g] by linarith
  then have "uint (n * c) = uint n * uint c" by (simp add: uint_word_ariths(3))
  with lt show "uint (g + n * c) = uint g + uint n * uint c"
    by (simp add: uint_word_ariths(1))
qed

lemma count_nz_eq: "count_nz data = of_nat (length (filter (\<lambda>b. b \<noteq> 0) data))"
proof -
  have "fold (\<lambda>byt nz. if byt \<noteq> 0 then nz + 1 else nz) data n =
      n + of_nat (length (filter (\<lambda>b. b \<noteq> 0) data))" for n :: u64
    by (induction data arbitrary: n) auto
  then show ?thesis by (simp add: count_nz_def)
qed

lemma uint_of_nat_small: "n < 2 ^ 64 \<Longrightarrow> uint (of_nat n :: u64) = int n"
  by (simp add: uint_nat unat_of_nat)

lemma uint_word_of_int_small: "0 \<le> n \<Longrightarrow> n < 2 ^ 64 \<Longrightarrow> uint (word_of_int n :: u64) = n"
  by (simp add: uint_word_of_int)

lemma uint_count_nz:
  assumes "length data < 2 ^ 64"
  shows "uint (count_nz data) = nonzero_bytes data"
    "uint (of_nat (length data) - count_nz data) = int (length data) - nonzero_bytes data"
proof -
  let ?nz = "length (filter (\<lambda>b. b \<noteq> 0) data)"
  have le: "?nz \<le> length data" by (rule length_filter_le)
  show "uint (count_nz data) = nonzero_bytes data"
    using uint_of_nat_small[OF order.strict_trans1[OF le assms]]
    by (simp add: count_nz_eq nonzero_bytes_def)
  have "of_nat (length data) - count_nz data = (of_nat (length data - ?nz) :: u64)"
    using le by (simp add: count_nz_eq)
  moreover have "length data - ?nz < 2 ^ 64" using assms by linarith
  ultimately show "uint (of_nat (length data) - count_nz data) = int (length data) - nonzero_bytes data"
    using le uint_of_nat_small[of "length data - ?nz"] by (simp only: nonzero_bytes_def of_nat_diff)
qed

lemma uint_toWordSize: "uint (toWordSize sz) = (uint sz + 31) div 32"
proof -
  have s: "0 \<le> uint sz" "uint sz < 2 ^ 64" using uint_lt2p[of sz] by simp_all
  have m: "uint (MaxUint64 - 31) = 2 ^ 64 - 32"
    by (simp add: uint_word_ariths(2) unsigned_minus_1_eq_mask mask_eq_exp_minus_1)
  have w: "uint (MaxUint64 div 32 + 1) = 2 ^ 59"
    by (simp add: uint_word_ariths(1) uint_div_distrib unsigned_minus_1_eq_mask mask_eq_exp_minus_1)
  show ?thesis
  proof (cases "sz > MaxUint64 - 31")
    case True
    then have "2 ^ 64 - 32 < uint sz" by (simp add: word_less_def m)
    with s have "(uint sz + 31) div 32 = 2 ^ 59" by auto
    with True show ?thesis by (simp add: toWordSize_def w)
  next
    case False
    then have "uint sz \<le> 2 ^ 64 - 32" by (simp add: word_less_def m)
    then have "uint (sz + 31) = uint sz + 31" by (simp add: uint_word_ariths(1))
    with False show ?thesis by (simp add: toWordSize_def uint_div_distrib)
  qed
qed

text \<open>The computation the two routines share.\<close>

definition intrinsic :: "u64 \<Rightarrow> u64 \<Rightarrow> bool \<Rightarrow> bytes \<Rightarrow> AccessList \<Rightarrow> tx_error + u64" where
  "intrinsic base nzGas creation data al =
     (let nz = count_nz data; z = of_nat (length data) - nz;
          g1 = base + nz * nzGas; g2 = g1 + z * 4;
          w = toWordSize (of_nat (length data)); g3 = (if creation then g2 + w * 2 else g2);
          al_gas = of_nat (Len al) * 2400 + of_nat (StorageKeys al) * 1900
      in if of_nat (length data) = (0::u64) then Inr (base + al_gas)
         else if (MaxUint64 - base) div nzGas < nz \<or> (MaxUint64 - g1) div 4 < z \<or>
                 (creation \<and> (MaxUint64 - g2) div 2 < w)
         then Inl ErrGasUintOverflow else Inr (g3 + al_gas))"

lemmas gas_consts = TxGas_def TxGasContractCreation_def TxDataZeroGas_def TxDataNonZeroGasFrontier_def
  TxDataNonZeroGasEIP2028_def InitCodeWordGas_def TxAccessListAddressGas_def TxAccessListStorageKeyGas_def

lemma tx_IntrinsicGas_intrinsic:
  "tx_IntrinsicGas tx = intrinsic 21000 16 (To tx = None) (Data tx) (TxAccessList tx)"
  by (simp add: tx_IntrinsicGas_def intrinsic_def Let_def gas_consts word_gt_0 add.assoc)

lemma IntrinsicGas_intrinsic:
  "IntrinsicGas data al creation = intrinsic (if creation then 53000 else 21000) 68 creation data al"
  by (simp add: IntrinsicGas_def intrinsic_def Let_def gas_consts word_gt_0 add.assoc)

lemma uint_eqI_word: "uint (x :: u64) = n \<Longrightarrow> x = word_of_int n"
  by (metis word_of_int_uint)

lemma gas_chain:
  fixes a z w G1 G2 G3 M :: int
  assumes "0 \<le> z" "0 \<le> w" "a < M \<longrightarrow> G1 = a" "G1 + z * 4 < M \<longrightarrow> G2 = G1 + z * 4"
    "G2 + w * 2 < M \<longrightarrow> G3 = G2 + w * 2"
  shows "(\<not> a < M \<or> \<not> G1 + z * 4 < M \<or> c \<and> \<not> G2 + w * 2 < M) \<longleftrightarrow> \<not> a + z * 4 + (if c then w * 2 else 0) < M"
    "a + z * 4 + (if c then w * 2 else 0) < M \<Longrightarrow> (if c then G3 else G2) = a + z * 4 + (if c then w * 2 else 0)"
  using assms by (cases "a < M"; cases "G1 + z * 4 < M"; cases "G2 + w * 2 < M"; cases c; force)+

lemma intrinsic_exact:
  assumes len: "length data < 2 ^ 64" and nz: "0 < uint nzGas" and base: "uint base + 2 ^ 60 < 2 ^ 64"
  shows "intrinsic base nzGas creation data al =
     (let s = data_gas_spec (uint base) (uint nzGas) creation data
      in if s < 2 ^ 64 then Inr (word_of_int (s + access_gas_spec al)) else Inl ErrGasUintOverflow)"
proof -
  let ?nz = "nonzero_bytes data" and ?n = "int (length data)"
  have al: "of_nat (Len al) * 2400 + of_nat (StorageKeys al) * 1900 = (word_of_int (access_gas_spec al) :: u64)"
    by (simp add: access_gas_spec_def)
  have n0: "of_nat (length data) = (0::u64) \<longleftrightarrow> data = []"
    using uint_of_nat_small[OF len] by (auto simp: word_uint_eq_iff)
  show ?thesis
  proof (cases "data = []")
    case True
    then show ?thesis using base al
      by (simp add: intrinsic_def data_gas_spec_def nonzero_bytes_def)
  next
    case False
    define nzw where "nzw = count_nz data"
    define z where "z = of_nat (length data) - nzw"
    define w where "w = toWordSize (of_nat (length data))"
    have u: "uint nzw = ?nz" "uint z = ?n - ?nz" "uint w = (?n + 31) div 32"
      using uint_count_nz[OF len] uint_toWordSize[of "of_nat (length data)"] uint_of_nat_small[OF len]
      by (simp_all add: nzw_def z_def w_def)
    have pos: "0 \<le> ?nz" "0 \<le> ?n - ?nz" "0 \<le> (?n + 31) div 32"
      using u uint_ge_0 by (metis+)
    define g1 where "g1 = base + nzw * nzGas"
    define g2 where "g2 = g1 + z * 4"
    note c1 = checked_mul_add[OF nz, of base nzw]
    have c2: "(MaxUint64 - g1) div 4 < z \<longleftrightarrow> \<not> uint g1 + uint z * 4 < 2 ^ 64"
      "uint g1 + uint z * 4 < 2 ^ 64 \<Longrightarrow> uint g2 = uint g1 + uint z * 4"
      using checked_mul_add[of 4 g1 z] by (simp_all add: g2_def)
    have c3: "(MaxUint64 - g2) div 2 < w \<longleftrightarrow> \<not> uint g2 + uint w * 2 < 2 ^ 64"
      "uint g2 + uint w * 2 < 2 ^ 64 \<Longrightarrow> uint (g2 + w * 2) = uint g2 + uint w * 2"
      using checked_mul_add[of 2 g2 w] by simp_all
    have nonneg: "0 \<le> uint nzw * uint nzGas" "0 \<le> uint z" "0 \<le> uint w" "0 \<le> uint base" by simp_all
    have spec: "data_gas_spec (uint base) (uint nzGas) creation data =
        uint base + uint nzw * uint nzGas + uint z * 4 + (if creation then uint w * 2 else 0)"
      by (simp add: data_gas_spec_def u)
    have eq: "intrinsic base nzGas creation data al =
       (if (MaxUint64 - base) div nzGas < nzw \<or> (MaxUint64 - g1) div 4 < z \<or> creation \<and> (MaxUint64 - g2) div 2 < w
        then Inl ErrGasUintOverflow
        else Inr ((if creation then g2 + w * 2 else g2) + word_of_int (access_gas_spec al)))"
      using False n0 by (simp add: intrinsic_def Let_def al nzw_def z_def w_def g1_def g2_def)
    note chain = gas_chain[where a = "uint base + uint nzw * uint nzGas" and M = "2 ^ 64" and c = creation,
        OF nonneg(2,3) impI[OF c1(2)[folded g1_def]] impI[OF c2(2)] impI[OF c3(2)], simplified, folded spec]
    have iff: "((MaxUint64 - base) div nzGas < nzw \<or> (MaxUint64 - g1) div 4 < z \<or> creation \<and> (MaxUint64 - g2) div 2 < w)
        \<longleftrightarrow> \<not> data_gas_spec (uint base) (uint nzGas) creation data < 2 ^ 64"
      using chain(1) c1(1) c2(1) c3(1) by auto
    have val: "uint (if creation then g2 + w * 2 else g2) = data_gas_spec (uint base) (uint nzGas) creation data"
      if "data_gas_spec (uint base) (uint nzGas) creation data < 2 ^ 64"
      using chain(2) that by (cases creation) simp_all
    show ?thesis
      unfolding eq iff using uint_eqI_word[OF val] by (simp add: Let_def)
  qed
qed

lemma IntrinsicGas_value:
  assumes "length data < 2 ^ 64"
  shows "IntrinsicGas data al creation =
     (let s = data_gas_spec (if creation then 53000 else 21000) 68 creation data
      in if s < 2 ^ 64 then Inr (word_of_int (s + access_gas_spec al)) else Inl ErrGasUintOverflow)"
  unfolding IntrinsicGas_intrinsic
  using intrinsic_exact[OF assms, of 68 "if creation then 53000 else 21000" creation al] by simp



lemma tx_IntrinsicGas_exact:
  assumes "length (Data tx) < 2 ^ 64"
  shows "tx_IntrinsicGas tx =
     (let s = data_gas_spec 21000 16 (To tx = None) (Data tx)
      in if s < 2 ^ 64 then Inr (word_of_int (s + access_gas_spec (TxAccessList tx)))
         else Inl ErrGasUintOverflow)"
  unfolding tx_IntrinsicGas_intrinsic
  using intrinsic_exact[OF assms, of 16 21000 "To tx = None" "TxAccessList tx"] by simp

lemma intrinsic_specs_differ:
  "data_gas_spec (if creation then 53000 else 21000) 68 creation data =
   data_gas_spec 21000 16 creation data + 52 * nonzero_bytes data + (if creation then 32000 else 0)"
  by (simp add: data_gas_spec_def)


definition sample_tx :: Transaction where
  "sample_tx = \<lparr>tx_inner = \<lparr>d_To = None, d_Nonce = 5, d_Value = 100, d_GasLimit = 60000, d_FeeCap = 10, d_TipCap = 2,
     d_ChainID = 1, d_SigAlgo = 0, d_Signature = [], d_EncAlgo = 0, d_EncContent = [], d_VmType = 0,
     d_Data = [0, 1], d_AccessList = NewAccessList\<rparr>, tx_time = 0, tx_hash = 1, tx_size = 100, tx_from = None\<rparr>"


subsection \<open>Fees\<close>

lemma big_cmp_simps [simp]:
  "big_cmp x y = -1 \<longleftrightarrow> x < y" "big_cmp x y = 0 \<longleftrightarrow> x = y" "big_cmp x y = 1 \<longleftrightarrow> y < x"
  "big_cmp x y < 0 \<longleftrightarrow> x < y" "0 < big_cmp x y \<longleftrightarrow> y < x" "0 \<le> big_cmp x y \<longleftrightarrow> y \<le> x"
  "big_cmp x y \<le> 0 \<longleftrightarrow> x \<le> y"
  by (auto simp: big_cmp_def)

lemma BigMin_min [simp]: "BigMin x y = min x y"
  by (simp add: BigMin_def min_def)

lemma effectiveGasPrice_tip:
  "effectiveGasPrice (tx_inner tx) (Some b) = b + EffectiveGasTipValue tx (Some b)"
  by (simp add: effectiveGasPrice_def EffectiveGasTipValue_def EffectiveGasTip_def GasFeeCap_def GasTipCap_def
      Let_def min_def)

end
