(* ===== verification/TxList.thy ===== *)
theory TxList
  imports Transaction
begin

text \<open>
  The transactions of one account, \<^verbatim>\<open>core/txpool/legacypool/list.go\<close>: \<open>sortedMap\<close>, a map from nonces
  to transactions with a heap of its nonces and a cache of the sorted contents, and \<open>list\<close>, which
  adds the cost and gas caps and the total cost.

  A nonce of the index that has no item would put a nil transaction into the returned slice, on
  which the caller's \<open>subTotalCost\<close> panics; such a panic and an index or slice bound out of range
  are \<open>None\<close>.
\<close>

record sortedMap =
  items :: "(u64, Transaction) gomap"
  index :: "u64 list"
  cache :: "Transaction list option"

definition newSortedMap :: sortedMap where
  "newSortedMap = \<lparr>items = [], index = [], cache = None\<rparr>"

abbreviation nonce_less :: "u64 \<Rightarrow> u64 \<Rightarrow> bool" where
  "nonce_less \<equiv> (<)"

definition sortedMap_Get :: "sortedMap \<Rightarrow> u64 \<Rightarrow> Transaction option" where
  "sortedMap_Get m nonce = map_of (items m) nonce"

definition sortedMap_Put :: "Transaction \<Rightarrow> sortedMap \<Rightarrow> sortedMap" where
  "sortedMap_Put tx m =
     (let nonce = Nonce tx;
          idx = (if map_of (items m) nonce = None then heap_Push nonce_less nonce (index m) else index m)
      in m\<lparr>index := idx, items := gm_put nonce tx (items m), cache := None\<rparr>)"

lemma heap_Pop_length: "heap_Pop lt xs = Some (x, ys) \<Longrightarrow> length xs = Suc (length ys)"
  using heap_down_mset[of 0 "heap_swap 0 (length xs - 1) xs" "length xs - 1" lt]
  by (auto simp: heap_Pop_def Let_def split: if_splits)

function forward_loop :: "u64 \<Rightarrow> sortedMap \<Rightarrow> Transaction list \<Rightarrow> (sortedMap \<times> Transaction list) option" where
  "forward_loop threshold m removed =
     (if index m \<noteq> [] \<and> hd (index m) < threshold then
        (case heap_Pop nonce_less (index m) of
           None \<Rightarrow> None
         | Some (nonce, idx) \<Rightarrow>
             (case map_of (items m) nonce of
                None \<Rightarrow> None
              | Some tx \<Rightarrow> forward_loop threshold (m\<lparr>index := idx, items := gm_del nonce (items m)\<rparr>) (removed @ [tx])))
      else Some (m, removed))"
  by pat_completeness auto
termination
  by (relation "measure (\<lambda>(_, m, _). length (index m))") (auto dest: heap_Pop_length)

declare forward_loop.simps [simp del]

definition sortedMap_Forward :: "u64 \<Rightarrow> sortedMap \<Rightarrow> (sortedMap \<times> Transaction list) option" where
  "sortedMap_Forward threshold m =
     do { (m', removed) \<leftarrow> forward_loop threshold m [];
          case cache m' of
            None \<Rightarrow> Some (m', removed)
          | Some c \<Rightarrow> if length removed \<le> length c
                      then Some (m'\<lparr>cache := Some (drop (length removed) c)\<rparr>, removed) else None }"

definition sortedMap_filter :: "(Transaction \<Rightarrow> bool) \<Rightarrow> sortedMap \<Rightarrow> sortedMap \<times> Transaction list" where
  "sortedMap_filter f m =
     (let removed = map snd (filter (\<lambda>(nonce, tx). f tx) (items m));
          m' = m\<lparr>items := filter (\<lambda>(nonce, tx). \<not> f tx) (items m)\<rparr>
      in (if removed \<noteq> [] then m'\<lparr>cache := None\<rparr> else m', removed))"

definition reheap :: "sortedMap \<Rightarrow> sortedMap" where
  "reheap m = m\<lparr>index := heap_Init nonce_less (map fst (items m)), cache := None\<rparr>"

definition sortedMap_Filter :: "(Transaction \<Rightarrow> bool) \<Rightarrow> sortedMap \<Rightarrow> sortedMap \<times> Transaction list" where
  "sortedMap_Filter f m =
     (let (m', removed) = sortedMap_filter f m
      in (if removed \<noteq> [] then reheap m' else m', removed))"

text \<open>The loop of \<open>Cap\<close> runs \<open>size\<close> from the number of items down to the threshold.\<close>

fun cap_loop :: "u64 list \<Rightarrow> nat \<Rightarrow> nat \<Rightarrow> (u64, Transaction) gomap \<Rightarrow> Transaction list \<Rightarrow>
    ((u64, Transaction) gomap \<times> Transaction list) option" where
  "cap_loop idx threshold 0 its drops = Some (its, drops)"
| "cap_loop idx threshold (Suc s) its drops =
     (if Suc s > threshold then
        (if s \<ge> length idx then None
         else case map_of its (idx ! s) of
                None \<Rightarrow> None
              | Some tx \<Rightarrow> cap_loop idx threshold s (gm_del (idx ! s) its) (drops @ [tx]))
      else Some (its, drops))"

definition sortedMap_Cap :: "nat \<Rightarrow> sortedMap \<Rightarrow> (sortedMap \<times> Transaction list) option" where
  "sortedMap_Cap threshold m =
     (if length (items m) \<le> threshold then Some (m, [])
      else let idx = sort (index m)
           in do { (its, drops) \<leftarrow> cap_loop idx threshold (length (items m)) (items m) [];
                   let m' = m\<lparr>index := heap_Init nonce_less (take threshold idx), items := its\<rparr>;
                   case cache m' of
                     None \<Rightarrow> Some (m', drops)
                   | Some c \<Rightarrow> if length drops \<le> length c
                               then Some (m'\<lparr>cache := Some (take (length c - length drops) c)\<rparr>, drops) else None })"

fun position :: "u64 \<Rightarrow> u64 list \<Rightarrow> nat option" where
  "position nonce [] = None"
| "position nonce (x # xs) = (if x = nonce then Some 0 else map_option Suc (position nonce xs))"

definition sortedMap_Remove :: "u64 \<Rightarrow> sortedMap \<Rightarrow> sortedMap \<times> bool" where
  "sortedMap_Remove nonce m =
     (if map_of (items m) nonce = None then (m, False)
      else let idx = (case position nonce (index m) of
                        None \<Rightarrow> index m
                      | Some i \<Rightarrow> (case heap_Remove nonce_less i (index m) of None \<Rightarrow> index m | Some (_, idx) \<Rightarrow> idx))
           in (m\<lparr>index := idx, items := gm_del nonce (items m), cache := None\<rparr>, True))"

function ready_loop :: "u64 \<Rightarrow> sortedMap \<Rightarrow> Transaction list \<Rightarrow> (sortedMap \<times> Transaction list) option" where
  "ready_loop next m ready =
     (if index m \<noteq> [] \<and> hd (index m) = next then
        (case map_of (items m) next of
           None \<Rightarrow> None
         | Some tx \<Rightarrow>
             (case heap_Pop nonce_less (index m) of
                None \<Rightarrow> None
              | Some (_, idx) \<Rightarrow>
                  ready_loop (next + 1) (m\<lparr>items := gm_del next (items m), index := idx\<rparr>) (ready @ [tx])))
      else Some (m, ready))"
  by pat_completeness auto
termination
  by (relation "measure (\<lambda>(_, m, _). length (index m))") (auto dest: heap_Pop_length)

declare ready_loop.simps [simp del]

definition sortedMap_Ready :: "u64 \<Rightarrow> sortedMap \<Rightarrow> (sortedMap \<times> Transaction list) option" where
  "sortedMap_Ready start m =
     (if index m = [] \<or> hd (index m) > start then Some (m, [])
      else do { (m', ready) \<leftarrow> ready_loop (hd (index m)) m []; Some (m'\<lparr>cache := None\<rparr>, ready) })"

definition sortedMap_Len :: "sortedMap \<Rightarrow> nat" where
  "sortedMap_Len m = length (items m)"

definition flatten :: "sortedMap \<Rightarrow> sortedMap \<times> Transaction list" where
  "flatten m =
     (case cache m of
        Some c \<Rightarrow> (m, c)
      | None \<Rightarrow> let c = sort_key Nonce (map snd (items m)) in (m\<lparr>cache := Some c\<rparr>, c))"

definition sortedMap_Flatten :: "sortedMap \<Rightarrow> sortedMap \<times> Transaction list" where
  "sortedMap_Flatten m = flatten m"

definition sortedMap_LastElement :: "sortedMap \<Rightarrow> (sortedMap \<times> Transaction) option" where
  "sortedMap_LastElement m =
     (let (m', c) = flatten m in if c = [] then None else Some (m', c ! (length c - 1)))"

subsection \<open>The list of an account\<close>

record txlist =
  strict :: bool
  txs :: sortedMap
  costcap :: int
  gascap :: u64
  totalcost :: int

definition newList :: "bool \<Rightarrow> txlist" where
  "newList s = \<lparr>strict = s, txs = newSortedMap, costcap = 0, gascap = 0, totalcost = 0\<rparr>"

definition list_Contains :: "txlist \<Rightarrow> u64 \<Rightarrow> bool" where
  "list_Contains l nonce = (sortedMap_Get (txs l) nonce \<noteq> None)"

definition subTotalCost :: "Transaction list \<Rightarrow> txlist \<Rightarrow> txlist" where
  "subTotalCost ts l = fold (\<lambda>tx l. l\<lparr>totalcost := totalcost l - Cost tx\<rparr>) ts l"

text \<open>
  The price test of \<open>Add\<close>: \<open>100 + int64(priceBump)\<close> is computed in 64 bits, and \<open>big.Int.Div\<close> by a
  positive number rounds down.
\<close>

definition list_Add :: "Transaction \<Rightarrow> u64 \<Rightarrow> txlist \<Rightarrow> txlist \<times> bool \<times> Transaction option" where
  "list_Add tx priceBump l =
     (let old = sortedMap_Get (txs l) (Nonce tx);
          accept = (\<lambda>l. let l = l\<lparr>totalcost := totalcost l + Cost tx\<rparr>;
                            l = l\<lparr>txs := sortedMap_Put tx (txs l)\<rparr>;
                            l = (if big_cmp (costcap l) (Cost tx) < 0 then l\<lparr>costcap := Cost tx\<rparr> else l);
                            l = (if gascap l < GasLimit tx then l\<lparr>gascap := GasLimit tx\<rparr> else l)
                        in (l, True, old))
      in case old of
           None \<Rightarrow> accept l
         | Some o' \<Rightarrow>
             if GasFeeCapCmp o' tx \<ge> 0 \<or> GasTipCapCmp o' tx \<ge> 0 then (l, False, None)
             else let a = sint (100 + priceBump);
                      thresholdFeeCap = (a * GasFeeCap o') div 100;
                      thresholdTip = (a * GasTipCap o') div 100
                  in if GasFeeCapIntCmp tx thresholdFeeCap < 0 \<or> GasTipCapIntCmp tx thresholdTip < 0
                     then (l, False, None)
                     else accept (subTotalCost [o'] l))"

definition list_Forward :: "u64 \<Rightarrow> txlist \<Rightarrow> (txlist \<times> Transaction list) option" where
  "list_Forward threshold l =
     do { (m, ts) \<leftarrow> sortedMap_Forward threshold (txs l); Some (subTotalCost ts (l\<lparr>txs := m\<rparr>), ts) }"

fun lowest_nonce :: "Transaction list \<Rightarrow> u64 \<Rightarrow> u64" where
  "lowest_nonce [] lowest = lowest"
| "lowest_nonce (tx # ts) lowest = lowest_nonce ts (if lowest > Nonce tx then Nonce tx else lowest)"

definition list_Filter :: "int \<Rightarrow> u64 \<Rightarrow> txlist \<Rightarrow> txlist \<times> Transaction list \<times> Transaction list" where
  "list_Filter costLimit gasLimit l =
     (if big_cmp (costcap l) costLimit \<le> 0 \<and> gascap l \<le> gasLimit then (l, [], [])
      else let l = l\<lparr>costcap := costLimit, gascap := gasLimit\<rparr>;
               (m, removed) = sortedMap_Filter (\<lambda>tx. GasLimit tx > gasLimit \<or> big_cmp (Cost tx) costLimit > 0) (txs l);
               l = l\<lparr>txs := m\<rparr>
           in if removed = [] then (l, [], [])
              else let (m, invalids) =
                         (if strict l
                          then let lowest = lowest_nonce removed MaxUint64
                               in sortedMap_filter (\<lambda>tx. Nonce tx > lowest) (txs l)
                          else (txs l, []));
                       l = subTotalCost invalids (subTotalCost removed (l\<lparr>txs := m\<rparr>))
                   in (l\<lparr>txs := reheap (txs l)\<rparr>, removed, invalids))"

definition list_Cap :: "nat \<Rightarrow> txlist \<Rightarrow> (txlist \<times> Transaction list) option" where
  "list_Cap threshold l =
     do { (m, ts) \<leftarrow> sortedMap_Cap threshold (txs l); Some (subTotalCost ts (l\<lparr>txs := m\<rparr>), ts) }"

definition list_Remove :: "Transaction \<Rightarrow> txlist \<Rightarrow> txlist \<times> bool \<times> Transaction list" where
  "list_Remove tx l =
     (let nonce = Nonce tx; (m, removed) = sortedMap_Remove nonce (txs l)
      in if \<not> removed then (l, False, [])
         else let l = subTotalCost [tx] (l\<lparr>txs := m\<rparr>)
              in if strict l
                 then let (m, ts) = sortedMap_Filter (\<lambda>tx. Nonce tx > nonce) (txs l)
                      in (subTotalCost ts (l\<lparr>txs := m\<rparr>), True, ts)
                 else (l, True, []))"

definition list_Ready :: "u64 \<Rightarrow> txlist \<Rightarrow> (txlist \<times> Transaction list) option" where
  "list_Ready start l =
     do { (m, ts) \<leftarrow> sortedMap_Ready start (txs l); Some (subTotalCost ts (l\<lparr>txs := m\<rparr>), ts) }"

definition list_Len :: "txlist \<Rightarrow> nat" where "list_Len l = sortedMap_Len (txs l)"

definition list_Empty :: "txlist \<Rightarrow> bool" where "list_Empty l = (list_Len l = 0)"

definition list_Flatten :: "txlist \<Rightarrow> txlist \<times> Transaction list" where
  "list_Flatten l = (let (m, ts) = sortedMap_Flatten (txs l) in (l\<lparr>txs := m\<rparr>, ts))"

definition list_LastElement :: "txlist \<Rightarrow> (txlist \<times> Transaction) option" where
  "list_LastElement l = do { (m, tx) \<leftarrow> sortedMap_LastElement (txs l); Some (l\<lparr>txs := m\<rparr>, tx) }"

subsection \<open>Nonce-sorted lists of transactions\<close>

definition by_nonce :: "Transaction list \<Rightarrow> bool" where
  "by_nonce xs \<longleftrightarrow> sorted_wrt (<) (map Nonce xs)"

lemma by_nonce_distinct: "by_nonce xs \<Longrightarrow> distinct (map Nonce xs)"
  by (simp add: by_nonce_def strict_sorted_iff)

lemma by_nonce_inj: "by_nonce xs \<Longrightarrow> inj_on Nonce (set xs)"
  using by_nonce_distinct distinct_map by blast

lemma by_nonce_unique:
  assumes "by_nonce xs" "by_nonce ys" "set xs = set ys"
  shows "xs = ys"
proof -
  have "map Nonce xs = map Nonce ys"
    using assms sorted_distinct_set_unique[of "map Nonce xs" "map Nonce ys"]
    by (simp add: by_nonce_def strict_sorted_iff)
  moreover have "inj_on Nonce (set xs \<union> set ys)" using by_nonce_inj assms by simp
  ultimately show ?thesis by (simp add: inj_on_map_eq_map)
qed

lemma by_nonce_Cons: "by_nonce (x # xs) \<longleftrightarrow> (\<forall>y\<in>set xs. Nonce x < Nonce y) \<and> by_nonce xs"
  by (auto simp: by_nonce_def)

lemma by_nonce_append:
  "by_nonce (xs @ ys) \<longleftrightarrow> by_nonce xs \<and> by_nonce ys \<and> (\<forall>x\<in>set xs. \<forall>y\<in>set ys. Nonce x < Nonce y)"
  by (auto simp: by_nonce_def sorted_wrt_append)

lemma by_nonce_filter [simp]: "by_nonce xs \<Longrightarrow> by_nonce (filter P xs)"
  by (induction xs) (auto simp: by_nonce_Cons)

lemma by_nonce_take [simp]: "by_nonce xs \<Longrightarrow> by_nonce (take n xs)"
  and by_nonce_drop [simp]: "by_nonce xs \<Longrightarrow> by_nonce (drop n xs)"
  by (simp_all add: by_nonce_def take_map[symmetric] drop_map[symmetric])

definition items_ok :: "(u64, Transaction) gomap \<Rightarrow> bool" where
  "items_ok its \<longleftrightarrow> gm_wf its \<and> (\<forall>(n, tx)\<in>set its. Nonce tx = n)"

definition items_list :: "(u64, Transaction) gomap \<Rightarrow> Transaction list" where
  "items_list its = sort_key Nonce (map snd its)"

lemma items_nonces: "items_ok its \<Longrightarrow> map Nonce (map snd its) = map fst its"
  by (auto simp: items_ok_def)

lemma set_items_list [simp]: "set (items_list its) = snd ` set its"
  by (simp add: items_list_def)

lemma length_items_list [simp]: "length (items_list its) = length its"
  by (simp add: items_list_def)

lemma items_mset:
  assumes "items_ok its"
  shows "mset (map Nonce (items_list its)) = mset (map fst its)"
  using items_nonces[OF assms] by (metis items_list_def mset_map mset_sort)

lemma items_list_by_nonce:
  assumes "items_ok its"
  shows "by_nonce (items_list its)"
proof -
  have "mset (map Nonce (items_list its)) = mset (map fst its)"
    by (rule items_mset[OF assms])
  then have "distinct (map Nonce (items_list its))"
    using assms by (metis items_ok_def distinct_count_atmost_1 mset_eq_setD)
  then show ?thesis by (simp add: by_nonce_def strict_sorted_iff items_list_def)
qed

lemma items_listI:
  "items_ok its \<Longrightarrow> by_nonce xs \<Longrightarrow> set xs = snd ` set its \<Longrightarrow> items_list its = xs"
  using by_nonce_unique items_list_by_nonce by simp

lemma items_lookup:
  assumes "items_ok its"
  shows "map_of its n = Some tx \<longleftrightarrow> tx \<in> set (items_list its) \<and> Nonce tx = n"
  using assms by (force simp: items_ok_def)

lemma items_lookup_None:
  assumes "items_ok its"
  shows "map_of its n = None \<longleftrightarrow> (\<forall>tx\<in>set (items_list its). Nonce tx \<noteq> n)"
  using items_lookup[OF assms] by (metis not_Some_eq)

lemma set_gm_del: "set (gm_del k its) = {p \<in> set its. fst p \<noteq> k}"
  by (auto simp: AList.delete_eq)

lemma set_gm_put:
  assumes "gm_wf its"
  shows "set (gm_put k v its) = insert (k, v) {p \<in> set its. fst p \<noteq> k}"
proof -
  have "(a, b) \<in> set (gm_put k v its) \<longleftrightarrow> (if a = k then b = v else (a, b) \<in> set its)" for a b
    unfolding map_of_eq_Some_iff[OF gm_wf_put[OF assms], symmetric] map_of_eq_Some_iff[OF assms, symmetric]
    by (auto simp: gomap_simps)
  then show ?thesis by (auto split: if_splits)
qed

lemma items_ok_del: "items_ok its \<Longrightarrow> items_ok (gm_del n its)"
  by (auto simp: items_ok_def set_gm_del intro: gm_wf_del)

lemma items_ok_filter: "items_ok its \<Longrightarrow> items_ok (filter P its)"
  by (auto simp: items_ok_def distinct_map_filter)

lemma items_list_del:
  assumes "items_ok its"
  shows "items_list (gm_del n its) = filter (\<lambda>tx. Nonce tx \<noteq> n) (items_list its)"
proof (rule items_listI[OF items_ok_del[OF assms]])
  show "set (filter (\<lambda>tx. Nonce tx \<noteq> n) (items_list its)) = snd ` set (gm_del n its)"
    using assms by (force simp: set_gm_del items_ok_def)
qed (simp add: items_list_by_nonce[OF assms])

lemma items_list_filter:
  assumes "items_ok its"
  shows "items_list (filter (\<lambda>(n, tx). P tx) its) = filter P (items_list its)"
  using items_list_by_nonce[OF assms] items_ok_filter[OF assms]
  by (intro items_listI) auto

text \<open>Inserting a transaction replaces the one with the same nonce.\<close>

definition ins_tx :: "Transaction \<Rightarrow> Transaction list \<Rightarrow> Transaction list" where
  "ins_tx tx xs = filter (\<lambda>t. Nonce t < Nonce tx) xs @ tx # filter (\<lambda>t. Nonce tx < Nonce t) xs"

lemma items_put:
  assumes "items_ok its"
  shows "items_ok (gm_put (Nonce tx) tx its)" "items_list (gm_put (Nonce tx) tx its) = ins_tx tx (items_list its)"
proof -
  have wf: "gm_wf its" using assms by (simp add: items_ok_def)
  show ok: "items_ok (gm_put (Nonce tx) tx its)"
    using assms set_gm_put[OF wf] gm_wf_put[OF wf] by (auto simp: items_ok_def)
  have "by_nonce (ins_tx tx (items_list its))"
    using items_list_by_nonce[OF assms] by (auto simp: ins_tx_def by_nonce_append by_nonce_Cons)
  moreover have "set (ins_tx tx (items_list its)) = snd ` set (gm_put (Nonce tx) tx its)"
  proof -
    have "snd ` {p \<in> set its. fst p \<noteq> Nonce tx} = {t \<in> snd ` set its. Nonce t \<noteq> Nonce tx}"
      using assms by (auto simp: items_ok_def image_iff)
    then show ?thesis by (auto simp: ins_tx_def set_gm_put[OF wf] neq_iff)
  qed
  ultimately show "items_list (gm_put (Nonce tx) tx its) = ins_tx tx (items_list its)"
    using ok by (intro items_listI)
qed

subsection \<open>The index follows the items\<close>

interpretation nonce_heap: heap_order nonce_less
  by unfold_locales auto

definition core_ok :: "(u64, Transaction) gomap \<Rightarrow> u64 list \<Rightarrow> bool" where
  "core_ok its idx \<longleftrightarrow> items_ok its \<and> mset idx = mset (map fst its) \<and> is_heap nonce_less idx"

lemma core_reheap: "items_ok its \<Longrightarrow> core_ok its (heap_Init nonce_less (map fst its))"
  by (simp add: core_ok_def nonce_heap.Init_ok)

lemma core_nonces:
  assumes "core_ok its idx"
  shows "mset idx = mset (map Nonce (items_list its))"
  using assms items_mset by (simp add: core_ok_def)

lemma core_Nil: "core_ok its idx \<Longrightarrow> idx = [] \<longleftrightarrow> items_list its = []"
  using core_nonces[of its idx] by (metis list.map_disc_iff mset_zero_iff)

lemma core_pop:
  assumes ok: "core_ok its idx" and xs: "items_list its = tx # xs"
  shows "hd idx = Nonce tx" "map_of its (Nonce tx) = Some tx"
    "\<exists>idx'. heap_Pop nonce_less idx = Some (Nonce tx, idx') \<and> core_ok (gm_del (Nonce tx) its) idx' \<and>
       items_list (gm_del (Nonce tx) its) = xs"
proof -
  have its: "items_ok its" and heap: "is_heap nonce_less idx" using ok by (simp_all add: core_ok_def)
  have ne: "idx \<noteq> []" using core_Nil[OF ok] xs by simp
  have by': "by_nonce (tx # xs)" using items_list_by_nonce[OF its] xs by simp
  have set: "set idx = Nonce ` set (tx # xs)"
    using core_nonces[OF ok] xs by (metis list.set_map mset_eq_setD)
  have "\<not> Nonce tx < hd idx" using nonce_heap.hd_min[OF heap, of "Nonce tx"] set by simp
  moreover have "\<not> hd idx < Nonce tx"
    using hd_in_set[OF ne] set by' by (auto simp: by_nonce_Cons)
  ultimately show hd: "hd idx = Nonce tx" by simp
  show "map_of its (Nonce tx) = Some tx" using items_lookup[OF its] xs by simp
  have rest: "items_list (gm_del (Nonce tx) its) = xs"
    using by' by (auto simp: items_list_del[OF its] xs by_nonce_Cons intro!: filter_True)
  from nonce_heap.Pop_ok[OF heap ne] hd obtain idx' where
    "heap_Pop nonce_less idx = Some (Nonce tx, idx')" "is_heap nonce_less idx'" "mset idx = add_mset (Nonce tx) (mset idx')"
    by auto
  moreover from this have "mset idx' = mset (map fst (gm_del (Nonce tx) its))"
    using core_nonces[OF ok] xs items_mset[OF items_ok_del[OF its], of "Nonce tx"] rest by simp
  ultimately show "\<exists>idx'. heap_Pop nonce_less idx = Some (Nonce tx, idx') \<and> core_ok (gm_del (Nonce tx) its) idx' \<and>
       items_list (gm_del (Nonce tx) its) = xs"
    using items_ok_del[OF its] rest by (simp add: core_ok_def)
qed

lemma core_put:
  assumes "core_ok its idx"
  shows "core_ok (gm_put (Nonce tx) tx its)
     (if map_of its (Nonce tx) = None then heap_Push nonce_less (Nonce tx) idx else idx)"
proof -
  have wf: "gm_wf its" using assms by (simp add: core_ok_def items_ok_def)
  show ?thesis
  proof (cases "map_of its (Nonce tx)")
    case None
    then show ?thesis
      using assms items_put(1)[of its tx] nonce_heap.Push_ok[of idx "Nonce tx"]
      by (simp add: core_ok_def gm_put_new)
  next
    case (Some t)
    obtain xs ys where "its = xs @ (Nonce tx, t) # ys" "gm_put (Nonce tx) tx its = xs @ (Nonce tx, tx) # ys"
      using gm_put_old[OF wf Some] by metis
    then have "map fst (gm_put (Nonce tx) tx its) = map fst its" by simp
    then show ?thesis using assms items_put(1)[of its tx] Some by (simp add: core_ok_def)
  qed
qed

lemma position_Some: "position n xs = Some i \<Longrightarrow> i < length xs \<and> xs ! i = n"
  by (induction xs arbitrary: i) (auto split: if_splits)

lemma position_None: "position n xs = None \<longleftrightarrow> n \<notin> set xs"
  by (induction xs) auto

lemma core_remove:
  assumes ok: "core_ok its idx" and n: "map_of its n = Some tx"
  shows "\<exists>i idx'. position n idx = Some i \<and> heap_Remove nonce_less i idx = Some (n, idx') \<and>
     core_ok (gm_del n its) idx'"
proof -
  have its: "items_ok its" and wf: "gm_wf its" and heap: "is_heap nonce_less idx"
    using ok by (simp_all add: core_ok_def items_ok_def)
  have "n \<in> fst ` set its" using n by (force dest: map_of_SomeD)
  moreover have "set idx = fst ` set its"
    using ok by (metis core_ok_def list.set_map mset_eq_setD)
  ultimately obtain i where i: "position n idx = Some i" "i < length idx" "idx ! i = n"
    using position_None[of n idx] position_Some[of n idx] by auto
  from nonce_heap.Remove_ok[OF heap i(2)] i(3) obtain idx' where
    r: "heap_Remove nonce_less i idx = Some (n, idx')" "is_heap nonce_less idx'" "mset idx = add_mset n (mset idx')"
    by auto
  obtain xs ys where "its = xs @ (n, tx) # ys" using n by (meson map_of_SomeD split_list)
  moreover from this have "n \<notin> fst ` set xs" "n \<notin> fst ` set ys" using wf by auto
  then have "filter (\<lambda>(k', _). n \<noteq> k') xs = xs" "filter (\<lambda>(k', _). n \<noteq> k') ys = ys"
    by (force simp: filter_id_conv)+
  ultimately have "its = xs @ (n, tx) # ys" "gm_del n its = xs @ ys"
    by (simp_all add: AList.delete_eq)
  then have "mset idx' = mset (map fst (gm_del n its))"
    using ok r(3) by (simp add: core_ok_def)
  then show ?thesis using i r items_ok_del[OF its] by (simp add: core_ok_def)
qed

definition sm_list :: "sortedMap \<Rightarrow> Transaction list" where
  "sm_list m = items_list (items m)"

text \<open>
  The invariant of \<open>sortedMap\<close>: items are stored under their nonce, the index is a heap of exactly
  those nonces, and a cache, when there is one, is the sorted contents.
\<close>

definition sm_wf :: "sortedMap \<Rightarrow> bool" where
  "sm_wf m \<longleftrightarrow> core_ok (items m) (index m) \<and> (case cache m of None \<Rightarrow> True | Some c \<Rightarrow> c = sm_list m)"

lemma sm_wf_core: "sm_wf m \<Longrightarrow> core_ok (items m) (index m)"
  by (simp add: sm_wf_def)

lemma sm_wf_items: "sm_wf m \<Longrightarrow> items_ok (items m)"
  by (simp add: sm_wf_def core_ok_def)

lemma sm_list_by_nonce: "sm_wf m \<Longrightarrow> by_nonce (sm_list m)"
  by (simp add: sm_list_def sm_wf_items items_list_by_nonce)

lemma sm_wf_new [wf_intros]: "sm_wf newSortedMap" "sm_list newSortedMap = []"
  by (simp_all add: sm_wf_def sm_list_def newSortedMap_def core_ok_def items_ok_def is_heap_def items_list_def)

lemma Put_ok:
  assumes "sm_wf m"
  shows "sm_wf (sortedMap_Put tx m)" "sm_list (sortedMap_Put tx m) = ins_tx tx (sm_list m)"
  using core_put[OF sm_wf_core[OF assms], of tx] items_put[OF sm_wf_items[OF assms], of tx]
  by (simp_all add: sm_wf_def sm_list_def sortedMap_Put_def Let_def)

lemma forward_loop_ok:
  "core_ok (items m) (index m) \<Longrightarrow>
   \<exists>its idx. forward_loop t m r =
       Some (m\<lparr>index := idx, items := its\<rparr>, r @ filter (\<lambda>tx. Nonce tx < t) (items_list (items m))) \<and>
     core_ok its idx \<and> items_list its = filter (\<lambda>tx. \<not> Nonce tx < t) (items_list (items m))"
proof (induction "items_list (items m)" arbitrary: m r)
  case Nil
  then show ?case using core_Nil[OF Nil.prems]
    by (intro exI[of _ "items m"] exI[of _ "index m"]) (simp add: forward_loop.simps[of t m])
next
  case (Cons tx xs)
  note pop = core_pop[OF Cons.prems Cons.hyps(2)[symmetric]]
  have ne: "index m \<noteq> []" using core_Nil[OF Cons.prems] Cons.hyps(2)[symmetric] by simp
  have by': "by_nonce (tx # xs)"
    using Cons.prems items_list_by_nonce Cons.hyps(2) by (simp add: core_ok_def)
  show ?case
  proof (cases "Nonce tx < t")
    case True
    from pop(3) obtain idx where idx: "heap_Pop nonce_less (index m) = Some (Nonce tx, idx)"
      "core_ok (gm_del (Nonce tx) (items m)) idx" "items_list (gm_del (Nonce tx) (items m)) = xs" by blast
    let ?m = "m\<lparr>index := idx, items := gm_del (Nonce tx) (items m)\<rparr>"
    have step: "forward_loop t m r = forward_loop t ?m (r @ [tx])"
      using True ne pop(1,2) idx(1) by (simp add: forward_loop.simps[of t m])
    from Cons.hyps(1)[of ?m "r @ [tx]"] idx show ?thesis
      using True by (simp add: step Cons.hyps(2)[symmetric])
  next
    case False
    then have "filter (\<lambda>tx. Nonce tx < t) (tx # xs) = []" "filter (\<lambda>tx. \<not> Nonce tx < t) (tx # xs) = tx # xs"
      using by' by (auto simp: by_nonce_Cons filter_empty_conv intro!: filter_True)
    with False ne pop(1) Cons.prems Cons.hyps(2) show ?thesis
      by (intro exI[of _ "items m"] exI[of _ "index m"]) (simp add: forward_loop.simps[of t m])
  qed
qed

text \<open>In a nonce-sorted list the transactions below a bound come first.\<close>

lemma by_nonce_split:
  "by_nonce xs \<Longrightarrow> filter (\<lambda>tx. Nonce tx < t) xs @ filter (\<lambda>tx. \<not> Nonce tx < t) xs = xs"
proof (induction xs)
  case (Cons x xs)
  show ?case
  proof (cases "Nonce x < t")
    case False
    then have "filter (\<lambda>tx. Nonce tx < t) xs = []" "filter (\<lambda>tx. \<not> Nonce tx < t) xs = xs"
      using Cons.prems by (auto simp: by_nonce_Cons filter_empty_conv intro!: filter_True)
    then show ?thesis using False by simp
  qed (use Cons in \<open>simp add: by_nonce_Cons\<close>)
qed simp

lemma Forward_ok:
  assumes "sm_wf m"
  shows "\<exists>m'. sortedMap_Forward t m = Some (m', filter (\<lambda>tx. Nonce tx < t) (sm_list m)) \<and> sm_wf m' \<and>
     sm_list m' = filter (\<lambda>tx. \<not> Nonce tx < t) (sm_list m)"
proof -
  let ?lo = "filter (\<lambda>tx. Nonce tx < t) (sm_list m)" and ?hi = "filter (\<lambda>tx. \<not> Nonce tx < t) (sm_list m)"
  from forward_loop_ok[OF sm_wf_core[OF assms], of t "[]"] obtain its idx where
    l: "forward_loop t m [] = Some (m\<lparr>index := idx, items := its\<rparr>, ?lo)" "core_ok its idx" "items_list its = ?hi"
    by (auto simp: sm_list_def)
  have "length ?lo \<le> length (sm_list m)" "drop (length ?lo) (sm_list m) = ?hi"
    using by_nonce_split[OF sm_list_by_nonce[OF assms], of t] by (auto, metis append_eq_conv_conj)
  then show ?thesis
    using l assms by (cases "cache m") (auto simp: sortedMap_Forward_def sm_wf_def sm_list_def)
qed

text \<open>
  \<open>filter\<close> leaves the index behind: it still holds the removed nonces until \<open>reheap\<close> rebuilds it.
\<close>

lemma filter_ok:
  assumes "items_ok (items m)" "sortedMap_filter f m = (m', removed)"
  shows "items_ok (items m')" "sm_list m' = filter (\<lambda>tx. \<not> f tx) (sm_list m)"
    "mset removed = mset (filter f (sm_list m))" "removed = [] \<Longrightarrow> m' = m"
proof -
  have m': "items m' = filter (\<lambda>(n, tx). \<not> f tx) (items m)" "removed = map snd (filter (\<lambda>(n, tx). f tx) (items m))"
    using assms(2) by (auto simp: sortedMap_filter_def Let_def split: if_splits)
  show "items_ok (items m')" using items_ok_filter[OF assms(1)] m'(1) by simp
  show "sm_list m' = filter (\<lambda>tx. \<not> f tx) (sm_list m)"
    using items_list_filter[OF assms(1)] m'(1) by (simp add: sm_list_def)
  have "removed = filter f (map snd (items m))"
    by (simp add: m'(2) filter_map comp_def case_prod_unfold)
  then show "mset removed = mset (filter f (sm_list m))"
    by (simp add: sm_list_def items_list_def)
  show "m' = m" if "removed = []"
  proof -
    have "\<forall>(n, tx)\<in>set (items m). \<not> f tx" using that m'(2) by (auto simp: filter_empty_conv)
    then have "filter (\<lambda>(n, tx). \<not> f tx) (items m) = items m" by (auto simp: filter_id_conv)
    then show ?thesis using assms(2) that by (auto simp: sortedMap_filter_def Let_def)
  qed
qed

lemma reheap_ok:
  "items_ok (items m) \<Longrightarrow> sm_wf (reheap m)" "sm_list (reheap m) = sm_list m"
  by (simp_all add: sm_wf_def reheap_def sm_list_def core_reheap)

lemma Filter_ok:
  assumes "sm_wf m" "sortedMap_Filter f m = (m', removed)"
  shows "sm_wf m'" "sm_list m' = filter (\<lambda>tx. \<not> f tx) (sm_list m)" "mset removed = mset (filter f (sm_list m))"
proof -
  obtain m1 r1 where f: "sortedMap_filter f m = (m1, r1)" by (cases "sortedMap_filter f m")
  note ok = filter_ok[OF sm_wf_items[OF assms(1)] f]
  have "m' = (if r1 \<noteq> [] then reheap m1 else m1)" "removed = r1"
    using assms(2) f by (auto simp: sortedMap_Filter_def)
  with ok assms(1) reheap_ok[of m1]
  show "sm_wf m'" "sm_list m' = filter (\<lambda>tx. \<not> f tx) (sm_list m)" "mset removed = mset (filter f (sm_list m))"
    by auto
qed

lemma Remove_ok:
  assumes "sm_wf m" "sortedMap_Remove n m = (m', b)"
  shows "sm_wf m'" "sm_list m' = filter (\<lambda>tx. Nonce tx \<noteq> n) (sm_list m)" "b \<longleftrightarrow> (\<exists>tx\<in>set (sm_list m). Nonce tx = n)"
proof -
  note its = sm_wf_items[OF assms(1)]
  have "sm_wf m' \<and> sm_list m' = filter (\<lambda>tx. Nonce tx \<noteq> n) (sm_list m) \<and> (b \<longleftrightarrow> (\<exists>tx\<in>set (sm_list m). Nonce tx = n))"
  proof (cases "map_of (items m) n")
    case None
    then have "\<forall>tx\<in>set (sm_list m). Nonce tx \<noteq> n"
      using items_lookup_None[OF its] by (simp add: sm_list_def)
    then have "filter (\<lambda>tx. Nonce tx \<noteq> n) (sm_list m) = sm_list m" by (simp add: filter_id_conv)
    then show ?thesis using None assms \<open>\<forall>tx\<in>set (sm_list m). Nonce tx \<noteq> n\<close>
      by (auto simp: sortedMap_Remove_def)
  next
    case (Some tx)
    from core_remove[OF sm_wf_core[OF assms(1)] Some] obtain i idx where
      "position n (index m) = Some i" "heap_Remove nonce_less i (index m) = Some (n, idx)" "core_ok (gm_del n (items m)) idx"
      by blast
    then show ?thesis
      using Some assms(2) items_lookup[OF its, of n tx] items_list_del[OF its, of n]
      by (auto simp: sortedMap_Remove_def sm_wf_def sm_list_def Let_def)
  qed
  then show "sm_wf m'" "sm_list m' = filter (\<lambda>tx. Nonce tx \<noteq> n) (sm_list m)" "b \<longleftrightarrow> (\<exists>tx\<in>set (sm_list m). Nonce tx = n)"
    by auto
qed

text \<open>The longest run of consecutive nonces at the front of a list.\<close>

fun run :: "u64 \<Rightarrow> Transaction list \<Rightarrow> Transaction list" where
  "run n [] = []"
| "run n (tx # xs) = (if Nonce tx = n then tx # run (n + 1) xs else [])"

definition ready_run :: "u64 \<Rightarrow> Transaction list \<Rightarrow> Transaction list" where
  "ready_run start xs = (if xs = [] \<or> start < Nonce (hd xs) then [] else run (Nonce (hd xs)) xs)"

lemma run_append: "run n xs @ drop (length (run n xs)) xs = xs"
  by (induction xs arbitrary: n) auto

lemma ready_loop_ok:
  "core_ok (items m) (index m) \<Longrightarrow>
   \<exists>its idx. ready_loop n m r = Some (m\<lparr>index := idx, items := its\<rparr>, r @ run n (items_list (items m))) \<and>
     core_ok its idx \<and> items_list its = drop (length (run n (items_list (items m)))) (items_list (items m))"
proof (induction "items_list (items m)" arbitrary: m r n)
  case Nil
  then show ?case using core_Nil[OF Nil.prems]
    by (intro exI[of _ "items m"] exI[of _ "index m"]) (simp add: ready_loop.simps[of n m])
next
  case (Cons tx xs)
  note pop = core_pop[OF Cons.prems Cons.hyps(2)[symmetric]]
  have ne: "index m \<noteq> []" using core_Nil[OF Cons.prems] Cons.hyps(2)[symmetric] by simp
  show ?case
  proof (cases "Nonce tx = n")
    case True
    from pop(3) obtain idx where idx: "heap_Pop nonce_less (index m) = Some (Nonce tx, idx)"
      "core_ok (gm_del (Nonce tx) (items m)) idx" "items_list (gm_del (Nonce tx) (items m)) = xs" by blast
    let ?m = "m\<lparr>items := gm_del (Nonce tx) (items m), index := idx\<rparr>"
    have step: "ready_loop n m r = ready_loop (n + 1) ?m (r @ [tx])"
      using True ne pop(1,2) idx(1) by (simp add: ready_loop.simps[of n m])
    from Cons.hyps(1)[of ?m "n + 1" "r @ [tx]"] idx show ?thesis
      using True by (simp add: step Cons.hyps(2)[symmetric])
  next
    case False
    with ne pop(1) Cons.prems Cons.hyps(2)[symmetric] show ?thesis
      by (intro exI[of _ "items m"] exI[of _ "index m"]) (simp add: ready_loop.simps[of n m])
  qed
qed

lemma Ready_ok:
  assumes "sm_wf m"
  shows "\<exists>m'. sortedMap_Ready start m = Some (m', ready_run start (sm_list m)) \<and> sm_wf m' \<and>
     sm_list m' = drop (length (ready_run start (sm_list m))) (sm_list m)"
proof (cases "sm_list m")
  case Nil
  then show ?thesis using assms core_Nil[OF sm_wf_core[OF assms]]
    by (simp add: sortedMap_Ready_def ready_run_def sm_list_def)
next
  case (Cons tx xs)
  then have xs: "items_list (items m) = tx # xs" by (simp add: sm_list_def)
  note core = sm_wf_core[OF assms]
  have ne: "index m \<noteq> []" using core_Nil[OF core] xs by simp
  from ready_loop_ok[OF core, of "Nonce tx" "[]"] core_pop(1)[OF core xs] ne assms
  show ?thesis unfolding Cons sm_list_def
    by (auto simp: sortedMap_Ready_def ready_run_def sm_wf_def xs)
qed

lemma sort_index:
  assumes "core_ok its idx"
  shows "sort idx = map Nonce (items_list its)"
proof -
  have "by_nonce (items_list its)" using assms items_list_by_nonce by (simp add: core_ok_def)
  then have "sorted (map Nonce (items_list its))" by (simp add: by_nonce_def strict_sorted_iff)
  with core_nonces[OF assms] show ?thesis
    by (metis properties_for_sort)
qed

lemma cap_loop_ok:
  assumes "by_nonce xs"
  shows "s \<le> length xs \<Longrightarrow> items_ok its \<Longrightarrow> items_list its = take s xs \<Longrightarrow> t \<le> s \<Longrightarrow>
   \<exists>its'. cap_loop (map Nonce xs) t s its d = Some (its', d @ rev (drop t (take s xs))) \<and>
     items_ok its' \<and> items_list its' = take t xs"
proof (induction s arbitrary: its d)
  case (Suc s)
  show ?case
  proof (cases "Suc s > t")
    case True
    let ?tx = "xs ! s"
    have s: "s < length xs" using Suc.prems(1) by simp
    have take: "take (Suc s) xs = take s xs @ [?tx]" using s by (simp add: take_Suc_conv_app_nth)
    have look: "map_of its (Nonce ?tx) = Some ?tx"
      using items_lookup[OF Suc.prems(2)] Suc.prems(3) take by simp
    have "by_nonce (take s xs @ [?tx])" using assms by (metis take by_nonce_take)
    then have "filter (\<lambda>tx. Nonce tx \<noteq> Nonce ?tx) (take s xs) = take s xs"
      by (fastforce simp: by_nonce_append filter_id_conv)
    then have "items_list (gm_del (Nonce ?tx) its) = take s xs"
      by (simp add: items_list_del[OF Suc.prems(2)] Suc.prems(3) take)
    from Suc.IH[OF _ items_ok_del[OF Suc.prems(2)] this, of "d @ [?tx]"] s True
    show ?thesis by (auto simp: look take)
  next
    case False
    then have "t = Suc s" using Suc.prems(4) by simp
    then show ?thesis using Suc.prems by simp
  qed
qed simp

lemma core_take:
  assumes "items_ok its"
  shows "core_ok its (heap_Init nonce_less (map Nonce (items_list its)))"
  using assms items_mset[OF assms] by (simp add: core_ok_def nonce_heap.Init_ok)

lemma Cap_ok:
  assumes "sm_wf m"
  shows "\<exists>m'. sortedMap_Cap t m = Some (m', rev (drop t (sm_list m))) \<and> sm_wf m' \<and> sm_list m' = take t (sm_list m)"
proof (cases "length (items m) \<le> t")
  case True
  then show ?thesis using assms by (simp add: sortedMap_Cap_def sm_list_def)
next
  case False
  let ?xs = "sm_list m"
  have len: "length ?xs = length (items m)" by (simp add: sm_list_def)
  have idx: "sort (index m) = map Nonce ?xs" using sort_index[OF sm_wf_core[OF assms]] by (simp add: sm_list_def)
  have "items_list (items m) = take (length ?xs) ?xs" by (simp add: sm_list_def)
  from cap_loop_ok[OF sm_list_by_nonce[OF assms] order.refl sm_wf_items[OF assms] this, of t "[]"] False len
  obtain its where its: "cap_loop (map Nonce ?xs) t (length (items m)) (items m) [] = Some (its, rev (drop t ?xs))"
    "items_ok its" "items_list its = take t ?xs"
    by (auto simp del: length_items_list)
  have core: "core_ok its (heap_Init nonce_less (take t (map Nonce ?xs)))"
    using core_take[OF its(2)] by (simp add: its(3) take_map)
  have cache: "cache m = None \<or> cache m = Some ?xs"
    using assms by (auto simp: sm_wf_def split: option.splits)
  have "length ?xs - length (drop t ?xs) = t" using False len by simp
  then show ?thesis
    using False its core cache len
    by (auto simp: sortedMap_Cap_def idx sm_wf_def Let_def sm_list_def)
qed

lemma flatten_ok:
  assumes "sm_wf m"
  shows "\<exists>m'. flatten m = (m', sm_list m) \<and> sm_wf m' \<and> sm_list m' = sm_list m"
  using assms by (cases "cache m") (auto simp: flatten_def sm_wf_def sm_list_def items_list_def Let_def)

subsection \<open>Costs and caps\<close>

definition total_cost :: "Transaction list \<Rightarrow> int" where
  "total_cost xs = sum_list (map Cost xs)"

lemma total_cost_simps [simp]:
  "total_cost [] = 0" "total_cost (x # xs) = Cost x + total_cost xs" "total_cost (xs @ ys) = total_cost xs + total_cost ys"
  by (simp_all add: total_cost_def)

lemma total_cost_mset: "mset xs = mset ys \<Longrightarrow> total_cost xs = total_cost ys"
  unfolding total_cost_def by (metis mset_map sum_mset_sum_list)

lemma total_cost_partition: "total_cost (filter P xs) + total_cost (filter (\<lambda>x. \<not> P x) xs) = total_cost xs"
  by (induction xs) auto

lemma subTotalCost_eq [simp]: "subTotalCost ts l = l\<lparr>totalcost := totalcost l - total_cost ts\<rparr>"
  by (induction ts arbitrary: l) (simp_all add: subTotalCost_def)

definition lst :: "txlist \<Rightarrow> Transaction list" where
  "lst l = sm_list (txs l)"

text \<open>
  The invariant of a list: the sorted map is well-formed, \<open>totalcost\<close> is the sum of the costs, and
  \<open>costcap\<close> and \<open>gascap\<close> bound every transaction in it.
\<close>

definition list_inv :: "txlist \<Rightarrow> bool" where
  "list_inv l \<longleftrightarrow> sm_wf (txs l) \<and> totalcost l = total_cost (lst l) \<and>
     (\<forall>tx\<in>set (lst l). Cost tx \<le> costcap l \<and> GasLimit tx \<le> gascap l)"

lemma list_inv_new [wf_intros]: "list_inv (newList s)" "lst (newList s) = []" "strict (newList s) = s"
  by (simp_all add: list_inv_def lst_def newList_def sm_wf_new)

lemma list_inv_by_nonce: "list_inv l \<Longrightarrow> by_nonce (lst l)"
  by (simp add: list_inv_def lst_def sm_list_by_nonce)

lemma by_nonce_at:
  assumes "by_nonce xs" "x \<in> set xs"
  shows "xs = filter (\<lambda>t. Nonce t < Nonce x) xs @ x # filter (\<lambda>t. Nonce x < Nonce t) xs"
proof -
  from assms(2) obtain as bs where xs: "xs = as @ x # bs" by (meson split_list)
  have "filter (\<lambda>t. Nonce t < Nonce x) as = as" "filter (\<lambda>t. Nonce t < Nonce x) bs = []"
    "filter (\<lambda>t. Nonce x < Nonce t) as = []" "filter (\<lambda>t. Nonce x < Nonce t) bs = bs"
    using assms(1) by (auto simp: xs by_nonce_append by_nonce_Cons filter_id_conv filter_empty_conv dest: less_asym)
  then show ?thesis by (simp add: xs)
qed

lemma by_nonce_absent:
  assumes "by_nonce xs" "\<forall>t\<in>set xs. Nonce t \<noteq> n"
  shows "filter (\<lambda>t. Nonce t < n) xs @ filter (\<lambda>t. n < Nonce t) xs = xs"
proof -
  have "filter (\<lambda>t. n < Nonce t) xs = filter (\<lambda>t. \<not> Nonce t < n) xs"
    using assms(2) by (intro filter_cong) auto
  then show ?thesis using by_nonce_split[OF assms(1), of n] by simp
qed

text \<open>The stored transaction with a nonce, and when \<open>Add\<close> lets a new one replace it.\<close>

definition at_nonce :: "u64 \<Rightarrow> Transaction list \<Rightarrow> Transaction option" where
  "at_nonce n xs = find (\<lambda>t. Nonce t = n) xs"

definition price_bumped :: "u64 \<Rightarrow> Transaction \<Rightarrow> Transaction \<Rightarrow> bool" where
  "price_bumped bump old tx \<longleftrightarrow> GasFeeCap old < GasFeeCap tx \<and> GasTipCap old < GasTipCap tx \<and>
     (sint (100 + bump) * GasFeeCap old) div 100 \<le> GasFeeCap tx \<and>
     (sint (100 + bump) * GasTipCap old) div 100 \<le> GasTipCap tx"

definition add_ok :: "u64 \<Rightarrow> Transaction \<Rightarrow> Transaction list \<Rightarrow> bool" where
  "add_ok bump tx xs \<longleftrightarrow> (case at_nonce (Nonce tx) xs of None \<Rightarrow> True | Some old \<Rightarrow> price_bumped bump old tx)"

lemma at_nonce_Some: "at_nonce n xs = Some t \<Longrightarrow> t \<in> set xs \<and> Nonce t = n"
  by (auto simp: at_nonce_def find_Some_iff)

lemma at_nonce_None: "at_nonce n xs = None \<longleftrightarrow> (\<forall>t\<in>set xs. Nonce t \<noteq> n)"
  by (auto simp: at_nonce_def find_None_iff)

lemma Get_at_nonce:
  assumes "sm_wf m"
  shows "sortedMap_Get m n = at_nonce n (sm_list m)"
proof (cases "at_nonce n (sm_list m)")
  case None
  then have "map_of (items m) n = None"
    using items_lookup_None[OF sm_wf_items[OF assms]] by (simp add: at_nonce_None sm_list_def)
  then show ?thesis using None by (simp add: sortedMap_Get_def)
next
  case (Some t)
  then have "map_of (items m) n = Some t"
    using items_lookup[OF sm_wf_items[OF assms], of n t] at_nonce_Some[OF Some] by (simp add: sm_list_def)
  then show ?thesis using Some by (simp add: sortedMap_Get_def)
qed

lemma total_cost_ins:
  assumes "by_nonce xs"
  shows "total_cost (ins_tx tx xs) =
     total_cost xs + Cost tx - (case at_nonce (Nonce tx) xs of None \<Rightarrow> 0 | Some old \<Rightarrow> Cost old)"
proof (cases "at_nonce (Nonce tx) xs")
  case None
  then have "filter (\<lambda>t. Nonce t < Nonce tx) xs @ filter (\<lambda>t. Nonce tx < Nonce t) xs = xs"
    using by_nonce_absent[OF assms] by (simp add: at_nonce_None)
  then show ?thesis using None total_cost_simps(3) by (auto simp: ins_tx_def) (metis total_cost_simps(3))
next
  case (Some old)
  have "Nonce old = Nonce tx" "old \<in> set xs" using at_nonce_Some[OF Some] by auto
  with by_nonce_at[OF assms, of old] have
    "total_cost xs = total_cost (filter (\<lambda>t. Nonce t < Nonce tx) xs) + Cost old + total_cost (filter (\<lambda>t. Nonce tx < Nonce t) xs)"
    by (metis total_cost_simps(2,3) add.assoc)
  then show ?thesis using Some by (simp add: ins_tx_def)
qed

lemma set_ins_tx: "set (ins_tx tx xs) \<subseteq> insert tx (set xs)"
  by (auto simp: ins_tx_def)

lemma list_Add_ok:
  assumes inv: "list_inv l" and add: "list_Add tx bump l = (l', b, old)"
  shows "list_inv l'" "strict l' = strict l" "b \<longleftrightarrow> add_ok bump tx (lst l)"
    "lst l' = (if b then ins_tx tx (lst l) else lst l)"
    "old = (if b then at_nonce (Nonce tx) (lst l) else None)" "\<not> b \<Longrightarrow> l' = l"
proof -
  have wf: "sm_wf (txs l)" using inv by (simp add: list_inv_def)
  let ?old = "at_nonce (Nonce tx) (lst l)"
  have get: "sortedMap_Get (txs l) (Nonce tx) = ?old" using Get_at_nonce[OF wf] by (simp add: lst_def)
  let ?l = "l\<lparr>totalcost := totalcost l + Cost tx - (case ?old of None \<Rightarrow> 0 | Some o' \<Rightarrow> Cost o'),
      txs := sortedMap_Put tx (txs l), costcap := max (costcap l) (Cost tx), gascap := max (gascap l) (GasLimit tx)\<rparr>"
  have eq: "list_Add tx bump l = (if add_ok bump tx (lst l) then (?l, True, ?old) else (l, False, None))"
    unfolding list_Add_def get
    by (auto simp: add_ok_def price_bumped_def GasFeeCapCmp_def GasTipCapCmp_def GasFeeCapIntCmp_def
        GasTipCapIntCmp_def Let_def max_def split: option.split)
  have "total_cost (ins_tx tx (lst l)) = totalcost ?l"
    using total_cost_ins[OF list_inv_by_nonce[OF inv], of tx] inv by (simp add: list_inv_def)
  moreover have "Cost t \<le> costcap ?l \<and> GasLimit t \<le> gascap ?l" if "t \<in> set (ins_tx tx (lst l))" for t
  proof (cases "t = tx")
    case False
    with that set_ins_tx[of tx "lst l"] inv show ?thesis by (auto simp: list_inv_def le_max_iff_disj)
  qed simp
  moreover have lst': "lst ?l = ins_tx tx (lst l)" using Put_ok[OF wf, of tx] by (simp add: lst_def)
  ultimately have inv': "list_inv ?l"
    using Put_ok(1)[OF wf, of tx] by (simp add: list_inv_def)
  show "list_inv l'" "strict l' = strict l" "b \<longleftrightarrow> add_ok bump tx (lst l)"
    "lst l' = (if b then ins_tx tx (lst l) else lst l)"
    "old = (if b then ?old else None)" "\<not> b \<Longrightarrow> l' = l"
    using add inv inv' lst' unfolding eq by (auto split: if_splits)
qed

text \<open>Dropping transactions and subtracting their cost keeps the invariant.\<close>

lemma list_inv_shrink:
  assumes "list_inv l" "sm_wf m" "mset (sm_list m) + mset ts = mset (lst l)"
  shows "list_inv (subTotalCost ts (l\<lparr>txs := m\<rparr>))" "lst (subTotalCost ts (l\<lparr>txs := m\<rparr>)) = sm_list m"
proof -
  have "total_cost (sm_list m) + total_cost ts = total_cost (lst l)"
    using total_cost_mset[of "sm_list m @ ts" "lst l"] assms(3) by simp
  moreover have "set (sm_list m) \<subseteq> set (lst l)"
    using assms(3) by (metis set_mset_mset mset_subset_eq_add_left set_mset_mono)
  ultimately show "list_inv (subTotalCost ts (l\<lparr>txs := m\<rparr>))"
    using assms(1,2) by (auto simp: list_inv_def lst_def)
qed (simp add: lst_def)

lemma list_Forward_ok:
  assumes "list_inv l"
  shows "\<exists>l'. list_Forward t l = Some (l', filter (\<lambda>tx. Nonce tx < t) (lst l)) \<and> list_inv l' \<and>
     strict l' = strict l \<and> lst l' = filter (\<lambda>tx. \<not> Nonce tx < t) (lst l)"
proof -
  have wf: "sm_wf (txs l)" using assms by (simp add: list_inv_def)
  from Forward_ok[OF wf, of t] obtain m where
    m: "sortedMap_Forward t (txs l) = Some (m, filter (\<lambda>tx. Nonce tx < t) (lst l))" "sm_wf m"
      "sm_list m = filter (\<lambda>tx. \<not> Nonce tx < t) (lst l)" by (auto simp: lst_def)
  with list_inv_shrink[OF assms m(2), of "filter (\<lambda>tx. Nonce tx < t) (lst l)"] show ?thesis
    by (simp add: list_Forward_def lst_def)
qed

lemma list_Cap_ok:
  assumes "list_inv l"
  shows "\<exists>l'. list_Cap t l = Some (l', rev (drop t (lst l))) \<and> list_inv l' \<and> strict l' = strict l \<and>
     lst l' = take t (lst l)"
proof -
  have wf: "sm_wf (txs l)" using assms by (simp add: list_inv_def)
  from Cap_ok[OF wf, of t] obtain m where
    m: "sortedMap_Cap t (txs l) = Some (m, rev (drop t (lst l)))" "sm_wf m" "sm_list m = take t (lst l)"
    by (auto simp: lst_def)
  have "mset (take t (lst l)) + mset (drop t (lst l)) = mset (lst l)"
    by (metis append_take_drop_id mset_append)
  with m list_inv_shrink[OF assms m(2), of "rev (drop t (lst l))"] show ?thesis
    by (simp add: list_Cap_def lst_def)
qed

lemma list_Ready_ok:
  assumes "list_inv l"
  shows "\<exists>l'. list_Ready n l = Some (l', ready_run n (lst l)) \<and> list_inv l' \<and> strict l' = strict l \<and>
     ready_run n (lst l) @ lst l' = lst l"
proof -
  have wf: "sm_wf (txs l)" using assms by (simp add: list_inv_def)
  let ?r = "ready_run n (lst l)"
  have split: "?r @ drop (length ?r) (lst l) = lst l"
    by (simp add: ready_run_def run_append)
  from Ready_ok[OF wf, of n] obtain m where
    m: "sortedMap_Ready n (txs l) = Some (m, ?r)" "sm_wf m" "sm_list m = drop (length ?r) (lst l)"
    by (auto simp: lst_def)
  have "mset (sm_list m) + mset ?r = mset (lst l)"
    using arg_cong[OF split, of mset] m(3) by (simp add: union_commute)
  with m split list_inv_shrink[OF assms m(2), of ?r] show ?thesis
    by (simp add: list_Ready_def lst_def)
qed

lemma lowest_nonce_le: "lowest_nonce ts n \<le> n \<and> (\<forall>t\<in>set ts. lowest_nonce ts n \<le> Nonce t)"
  by (induction ts arbitrary: n) (fastforce intro: order.trans)+

lemma lowest_nonce_in: "lowest_nonce ts n = n \<or> lowest_nonce ts n \<in> Nonce ` set ts"
  by (induction ts arbitrary: n) auto

lemma lowest_nonce_eq:
  assumes "x \<in> set ts" "\<forall>t\<in>set ts. Nonce x \<le> Nonce t"
  shows "lowest_nonce ts MaxUint64 = Nonce x"
proof -
  have "lowest_nonce ts MaxUint64 \<le> Nonce x" using lowest_nonce_le assms(1) by blast
  moreover have "Nonce x \<le> lowest_nonce ts MaxUint64"
    using lowest_nonce_in[of ts MaxUint64] assms(2) by auto
  ultimately show ?thesis by simp
qed

text \<open>
  What \<open>Filter\<close> drops: transactions over a limit, and in a strict list also everything after the
  first of them.
\<close>

definition over :: "int \<Rightarrow> u64 \<Rightarrow> Transaction \<Rightarrow> bool" where
  "over costLimit gasLimit tx \<longleftrightarrow> GasLimit tx > gasLimit \<or> Cost tx > costLimit"

definition keep :: "bool \<Rightarrow> (Transaction \<Rightarrow> bool) \<Rightarrow> Transaction list \<Rightarrow> Transaction list" where
  "keep s P xs = (if s then takeWhile (\<lambda>x. \<not> P x) xs else filter (\<lambda>x. \<not> P x) xs)"

definition gapped :: "bool \<Rightarrow> (Transaction \<Rightarrow> bool) \<Rightarrow> Transaction list \<Rightarrow> Transaction list" where
  "gapped s P xs = (if s then filter (\<lambda>x. \<not> P x) (dropWhile (\<lambda>x. \<not> P x) xs) else [])"

lemma keep_partition: "mset (keep s P xs) + mset (filter P xs) + mset (gapped s P xs) = mset xs"
proof (cases s)
  case True
  let ?d = "dropWhile (\<lambda>x. \<not> P x) xs" and ?t = "takeWhile (\<lambda>x. \<not> P x) xs"
  have "filter P xs = filter P ?d"
    by (metis append_Nil filter_append filter_False set_takeWhileD takeWhile_dropWhile_id)
  moreover have "mset ?t + mset ?d = mset xs" by (metis mset_append takeWhile_dropWhile_id)
  moreover have "mset (filter P ?d) + mset (filter (\<lambda>x. \<not> P x) ?d) = mset ?d"
    by (simp add: multiset_partition[symmetric])
  ultimately show ?thesis using True by (simp add: keep_def gapped_def union_assoc)
next
  case False
  then show ?thesis by (simp add: keep_def gapped_def union_commute multiset_partition[symmetric])
qed

lemma keep_none: "\<forall>x\<in>set xs. \<not> P x \<Longrightarrow> keep s P xs = xs \<and> filter P xs = [] \<and> gapped s P xs = []"
proof -
  assume none: "\<forall>x\<in>set xs. \<not> P x"
  then have "gapped s P xs = []" by (induction xs) (auto simp: gapped_def split: if_splits)
  with none show ?thesis by (simp add: keep_def filter_empty_conv filter_id_conv)
qed

lemma strict_filter_split:
  assumes "by_nonce xs" "x \<in> set xs" "P x" "\<forall>y\<in>set xs. P y \<longrightarrow> Nonce x \<le> Nonce y"
  shows "filter (\<lambda>y. \<not> Nonce y > Nonce x) (filter (\<lambda>y. \<not> P y) xs) = takeWhile (\<lambda>y. \<not> P y) xs"
    "filter (\<lambda>y. Nonce y > Nonce x) (filter (\<lambda>y. \<not> P y) xs) = filter (\<lambda>y. \<not> P y) (dropWhile (\<lambda>y. \<not> P y) xs)"
proof -
  from assms(2) obtain as bs where xs: "xs = as @ x # bs" by (meson split_list)
  have lt: "\<forall>y\<in>set as. Nonce y < Nonce x" "\<forall>y\<in>set bs. Nonce x < Nonce y"
    using assms(1) by (auto simp: xs by_nonce_append by_nonce_Cons)
  then have as: "\<forall>y\<in>set as. \<not> P y" using assms(4) by (fastforce simp: xs)
  have "takeWhile (\<lambda>y. \<not> P y) xs = as" "dropWhile (\<lambda>y. \<not> P y) xs = x # bs"
    using as assms(3) by (simp_all add: xs)
  moreover have "filter (\<lambda>y. \<not> P y) xs = as @ filter (\<lambda>y. \<not> P y) bs"
    using as assms(3) by (simp add: xs filter_id_conv)
  moreover have "filter (\<lambda>y. \<not> Nonce y > Nonce x) as = as" "filter (\<lambda>y. Nonce y > Nonce x) as = []"
    using lt by (auto simp: filter_id_conv filter_empty_conv)
  moreover have "filter (\<lambda>y. \<not> Nonce y > Nonce x) (filter (\<lambda>y. \<not> P y) bs) = []"
    "filter (\<lambda>y. Nonce y > Nonce x) (filter (\<lambda>y. \<not> P y) bs) = filter (\<lambda>y. \<not> P y) bs"
    using lt by (auto simp: filter_empty_conv intro!: filter_cong)
  ultimately show "filter (\<lambda>y. \<not> Nonce y > Nonce x) (filter (\<lambda>y. \<not> P y) xs) = takeWhile (\<lambda>y. \<not> P y) xs"
    "filter (\<lambda>y. Nonce y > Nonce x) (filter (\<lambda>y. \<not> P y) xs) = filter (\<lambda>y. \<not> P y) (dropWhile (\<lambda>y. \<not> P y) xs)"
    using assms(3) by simp_all
qed

lemma list_Filter_ok:
  assumes inv: "list_inv l" and F: "list_Filter c g l = (l', removed, invalids)"
  shows "list_inv l' \<and> strict l' = strict l \<and> lst l' = keep (strict l) (over c g) (lst l) \<and>
     mset removed = mset (filter (over c g) (lst l)) \<and> mset invalids = mset (gapped (strict l) (over c g) (lst l))"
proof (cases "big_cmp (costcap l) c \<le> 0 \<and> gascap l \<le> g")
  case True
  then have "\<forall>x\<in>set (lst l). \<not> over c g x"
    using inv by (fastforce simp: list_inv_def over_def)
  then show ?thesis using keep_none[of "lst l" "over c g" "strict l"] True F inv by (simp add: list_Filter_def)
next
  case False
  let ?P = "over c g" and ?xs = "lst l"
  have wf: "sm_wf (txs l)" using inv by (simp add: list_inv_def)
  have P: "(\<lambda>tx. g < GasLimit tx \<or> c < Cost tx) = ?P" by (simp add: over_def fun_eq_iff)
  obtain m r where r: "sortedMap_Filter ?P (txs l) = (m, r)" by (cases "sortedMap_Filter ?P (txs l)")
  note ok = Filter_ok[OF wf r, folded lst_def]
  have caps: "\<forall>x\<in>set (keep (strict l) ?P ?xs). Cost x \<le> c \<and> GasLimit x \<le> g"
    by (auto simp: keep_def over_def dest: set_takeWhileD)
  show ?thesis
  proof (cases "r = []")
    case True
    then have none: "\<forall>x\<in>set ?xs. \<not> ?P x" using ok(3) by (simp add: filter_empty_conv)
    then have keep: "keep (strict l) ?P ?xs = ?xs" "filter ?P ?xs = []" "gapped (strict l) ?P ?xs = []" "sm_list m = ?xs"
      using keep_none[of ?xs ?P "strict l"] ok(2) by (auto simp: filter_id_conv)
    then show ?thesis using False F r True inv ok(1) caps
      by (auto simp: list_Filter_def P Let_def list_inv_def lst_def)
  next
    case ne: False
    obtain m2 inv2 where m2: "(if strict l then sortedMap_filter (\<lambda>tx. Nonce tx > lowest_nonce r MaxUint64) m else (m, [])) = (m2, inv2)"
      by (cases "if strict l then sortedMap_filter (\<lambda>tx. Nonce tx > lowest_nonce r MaxUint64) m else (m, [])") auto
    have res: "l' = (subTotalCost inv2 (subTotalCost r (l\<lparr>costcap := c, gascap := g, txs := m2\<rparr>)))\<lparr>txs := reheap m2\<rparr>"
      "removed = r" "invalids = inv2"
      using False F r ne m2 by (auto simp: list_Filter_def P Let_def split: if_splits)
    have m2_ok: "items_ok (items m2) \<and> sm_list m2 = keep (strict l) ?P ?xs \<and> mset inv2 = mset (gapped (strict l) ?P ?xs)"
    proof (cases "strict l")
      case True
      let ?d = "dropWhile (\<lambda>y. \<not> ?P y) ?xs"
      have set_r: "set r = {x \<in> set ?xs. ?P x}" using mset_eq_setD[OF ok(3)] by simp
      obtain x where x: "x \<in> set r" "\<forall>t\<in>set r. Nonce x \<le> Nonce t"
        using ne by (metis arg_min_list_in f_arg_min_list_f finite_set finite_imageI
            Min_le image_eqI)
      then have low: "lowest_nonce r MaxUint64 = Nonce x" by (rule lowest_nonce_eq)
      have f: "sortedMap_filter (\<lambda>tx. Nonce tx > Nonce x) m = (m2, inv2)" using m2 True low by simp
      note ok2 = filter_ok[OF sm_wf_items[OF ok(1)] f]
      have "by_nonce ?xs" using inv by (rule list_inv_by_nonce)
      note sp = strict_filter_split[OF this, of x ?P]
      show ?thesis using ok2 sp x set_r True
        by (simp add: keep_def gapped_def ok(2) del: mset_filter filter_filter)
    next
      case F: False
      then show ?thesis using m2 ok sm_wf_items[OF ok(1)] by (simp add: keep_def gapped_def)
    qed
    have re: "sm_wf (reheap m2)" "sm_list (reheap m2) = keep (strict l) ?P ?xs"
      using reheap_ok[of m2] m2_ok by simp_all
    have "total_cost (keep (strict l) ?P ?xs) + total_cost r + total_cost inv2 = total_cost ?xs"
      using total_cost_mset[of "keep (strict l) ?P ?xs @ r @ inv2" ?xs] keep_partition[of "strict l" ?P ?xs] ok(3) m2_ok
      by (simp add: add.assoc)
    then show ?thesis
      using res re m2_ok ok(3) caps inv by (simp add: list_inv_def lst_def)
  qed
qed

lemma list_Remove_ok:
  assumes inv: "list_inv l" and tx: "tx \<in> set (lst l)" and R: "list_Remove tx l = (l', b, ts)"
  shows "list_inv l' \<and> strict l' = strict l \<and> b \<and>
     lst l' = filter (\<lambda>t. Nonce t < Nonce tx \<or> \<not> strict l \<and> Nonce tx < Nonce t) (lst l) \<and>
     mset ts = (if strict l then mset (filter (\<lambda>t. Nonce tx < Nonce t) (lst l)) else {#})"
proof -
  let ?xs = "lst l" and ?n = "Nonce tx"
  have wf: "sm_wf (txs l)" using inv by (simp add: list_inv_def)
  obtain m d where m: "sortedMap_Remove ?n (txs l) = (m, d)" by (cases "sortedMap_Remove ?n (txs l)")
  note ok = Remove_ok[OF wf m, folded lst_def]
  have d: "d" using ok(3) tx by auto
  define l1 where "l1 = subTotalCost [tx] (l\<lparr>txs := m\<rparr>)"
  have parts: "mset (filter (\<lambda>t. Nonce t < ?n) ?xs) + {#tx#} + mset (filter (\<lambda>t. ?n < Nonce t) ?xs) = mset ?xs"
    using arg_cong[OF by_nonce_at[OF list_inv_by_nonce[OF inv] tx], of mset] by simp
  have ne: "filter (\<lambda>t. Nonce t \<noteq> ?n) ?xs = filter (\<lambda>t. Nonce t < ?n) ?xs @ filter (\<lambda>t. ?n < Nonce t) ?xs"
  proof -
    have "by_nonce (filter (\<lambda>t. Nonce t < ?n) ?xs @ filter (\<lambda>t. ?n < Nonce t) ?xs)"
      using list_inv_by_nonce[OF inv] by (auto simp: by_nonce_append)
    then show ?thesis
      using list_inv_by_nonce[OF inv] by (intro by_nonce_unique) (auto simp: neq_iff)
  qed
  have l1: "list_inv l1" "lst l1 = filter (\<lambda>t. Nonce t \<noteq> ?n) ?xs" "txs l1 = m" "strict l1 = strict l"
    using list_inv_shrink[OF inv ok(1), of "[tx]"] parts ok(2) ne by (simp_all add: l1_def)
  show ?thesis
  proof (cases "strict l")
    case False
    have "filter (\<lambda>t. Nonce t \<noteq> ?n) ?xs = filter (\<lambda>t. Nonce t < ?n \<or> ?n < Nonce t) ?xs"
      by (rule filter_cong) (auto simp: neq_iff)
    moreover have "l' = l1 \<and> b \<and> ts = []"
      using False R m d by (auto simp: list_Remove_def Let_def l1_def)
    ultimately show ?thesis using False l1 by simp
  next
    case True
    obtain m2 t2 where m2: "sortedMap_Filter (\<lambda>t. Nonce t > ?n) m = (m2, t2)" by (cases "sortedMap_Filter (\<lambda>t. Nonce t > ?n) m")
    note ok2 = Filter_ok[OF ok(1) m2]
    have "filter (\<lambda>t. \<not> ?n < Nonce t) (filter (\<lambda>t. Nonce t \<noteq> ?n) ?xs) = filter (\<lambda>t. Nonce t < ?n) ?xs"
      "filter (\<lambda>t. ?n < Nonce t) (filter (\<lambda>t. Nonce t \<noteq> ?n) ?xs) = filter (\<lambda>t. ?n < Nonce t) ?xs"
      by (auto intro!: filter_cong simp: neq_iff)
    with ok2 ok(2) have l2: "sm_list m2 = filter (\<lambda>t. Nonce t < ?n) ?xs" "mset t2 = mset (filter (\<lambda>t. ?n < Nonce t) ?xs)"
      by (simp_all del: mset_filter filter_filter)
    have "mset (sm_list m2) + mset t2 = mset (lst l1)" using l2 l1(2) ne by simp
    moreover have "l' = subTotalCost t2 (l1\<lparr>txs := m2\<rparr>) \<and> b \<and> ts = t2"
      using True R m d m2 by (auto simp: list_Remove_def Let_def l1_def)
    ultimately show ?thesis
      using list_inv_shrink[OF l1(1) ok2(1)] l1 True l2 by simp
  qed
qed

lemma list_Remove_absent:
  assumes "list_inv l" "\<forall>t\<in>set (lst l). Nonce t \<noteq> Nonce tx"
  shows "list_Remove tx l = (l, False, [])"
proof -
  have wf: "sm_wf (txs l)" using assms(1) by (simp add: list_inv_def)
  obtain m d where m: "sortedMap_Remove (Nonce tx) (txs l) = (m, d)" by (cases "sortedMap_Remove (Nonce tx) (txs l)")
  with Remove_ok(3)[OF wf m] assms(2) show ?thesis by (auto simp: list_Remove_def lst_def)
qed

subsection \<open>The list as a nonce-sorted sequence\<close>

text \<open>
  The calls a pool makes on a list. \<open>Remove\<close> is called with the transaction the list stores under
  that nonce.
\<close>

datatype list_op = LAdd Transaction u64 | LForward u64 | LFilter int u64 | LCap nat | LReady u64 | LRemove u64

fun list_exec :: "list_op \<Rightarrow> txlist \<Rightarrow> txlist option" where
  "list_exec (LAdd tx bump) l = Some (fst (list_Add tx bump l))"
| "list_exec (LForward n) l = map_option fst (list_Forward n l)"
| "list_exec (LFilter c g) l = Some (fst (list_Filter c g l))"
| "list_exec (LCap n) l = map_option fst (list_Cap n l)"
| "list_exec (LReady n) l = map_option fst (list_Ready n l)"
| "list_exec (LRemove n) l =
     (case sortedMap_Get (txs l) n of None \<Rightarrow> Some l | Some tx \<Rightarrow> Some (fst (list_Remove tx l)))"

fun list_spec :: "list_op \<Rightarrow> bool \<times> Transaction list \<Rightarrow> bool \<times> Transaction list" where
  "list_spec (LAdd tx bump) (s, xs) = (s, if add_ok bump tx xs then ins_tx tx xs else xs)"
| "list_spec (LForward n) (s, xs) = (s, filter (\<lambda>tx. \<not> Nonce tx < n) xs)"
| "list_spec (LFilter c g) (s, xs) = (s, keep s (over c g) xs)"
| "list_spec (LCap n) (s, xs) = (s, take n xs)"
| "list_spec (LReady n) (s, xs) = (s, drop (length (ready_run n xs)) xs)"
| "list_spec (LRemove n) (s, xs) =
     (s, if at_nonce n xs = None then xs else filter (\<lambda>t. Nonce t < n \<or> \<not> s \<and> n < Nonce t) xs)"

definition list_abs :: "txlist \<Rightarrow> bool \<times> Transaction list" where
  "list_abs l = (strict l, lst l)"

lemma list_exec_ok:
  assumes "list_inv l"
  shows "\<exists>l'. list_exec op l = Some l' \<and> list_inv l' \<and> list_abs l' = list_spec op (list_abs l)"
proof (cases op)
  case (LAdd tx bump)
  obtain l' b old where a: "list_Add tx bump l = (l', b, old)" by (cases "list_Add tx bump l")
  from list_Add_ok[OF assms a] LAdd a show ?thesis by (simp add: list_abs_def)
next
  case (LForward n)
  with list_Forward_ok[OF assms, of n] show ?thesis by (auto simp: list_abs_def)
next
  case (LFilter c g)
  obtain l' r i where a: "list_Filter c g l = (l', r, i)" by (cases "list_Filter c g l")
  from list_Filter_ok[OF assms a] LFilter a show ?thesis by (simp add: list_abs_def)
next
  case (LCap n)
  with list_Cap_ok[OF assms, of n] show ?thesis by (auto simp: list_abs_def)
next
  case (LReady n)
  with list_Ready_ok[OF assms, of n] show ?thesis by (auto simp: list_abs_def) (metis append_eq_conv_conj)+
next
  case (LRemove n)
  have get: "sortedMap_Get (txs l) n = at_nonce n (lst l)"
    using Get_at_nonce[of "txs l" n] assms by (simp add: list_inv_def lst_def)
  show ?thesis
  proof (cases "at_nonce n (lst l)")
    case None
    then show ?thesis using LRemove get assms by (simp add: list_abs_def)
  next
    case (Some tx)
    note tx = at_nonce_Some[OF Some]
    obtain l' b ts where a: "list_Remove tx l = (l', b, ts)" by (cases "list_Remove tx l")
    from list_Remove_ok[OF assms _ a] tx Some get LRemove a show ?thesis by (simp add: list_abs_def)
  qed
qed

interpretation tx_list: op_refinement list_exec list_spec list_abs list_inv
  by unfold_locales (rule list_exec_ok)


text \<open>
  C3. \<open>Filter\<close> removes exactly the transactions over the cost or gas limit although it skips the
  scan when the cached caps allow it; in a strict list it also hands back every later transaction,
  so that what remains is the affordable prefix. What it returns and what it keeps make up the
  former contents, and the total cost follows.
\<close>

theorem list_Filter_exact:
  assumes "list_inv l" "list_Filter costLimit gasLimit l = (l', removed, invalids)"
  shows "list_inv l' \<and> mset removed = mset (filter (over costLimit gasLimit) (lst l)) \<and>
     lst l' = (if strict l then takeWhile (\<lambda>tx. \<not> over costLimit gasLimit tx) (lst l)
               else filter (\<lambda>tx. \<not> over costLimit gasLimit tx) (lst l)) \<and>
     mset (lst l') + mset removed + mset invalids = mset (lst l) \<and> (\<not> strict l \<longrightarrow> invalids = [])"
  using list_Filter_ok[OF assms] keep_partition[of "strict l" "over costLimit gasLimit" "lst l"]
  by (auto simp: keep_def gapped_def)

definition sample_at :: "u64 \<Rightarrow> int \<Rightarrow> Transaction" where
  "sample_at n v = sample_tx\<lparr>tx_inner := (tx_inner sample_tx)\<lparr>d_Nonce := n, d_Value := v\<rparr>,
     tx_hash := ucast n\<rparr>"

lemma sample_at_simps [simp]: "Nonce (sample_at n v) = n" "Cost (sample_at n v) = 600000 + v"
  "GasLimit (sample_at n v) = 60000" "GasFeeCap (sample_at n v) = 10" "GasTipCap (sample_at n v) = 2"
  "tx_hash (sample_at n v) = ucast n"
  by (simp_all add: sample_at_def sample_tx_def Nonce_def Cost_def GasLimit_def GasPrice_def Value_def GasFeeCap_def
      GasTipCap_def)

definition sample_list3 :: txlist where
  "sample_list3 = fst (list_Add (sample_at 7 0) 10 (fst (list_Add (sample_at 5 0) 10 (fst (list_Add (sample_at 6 9) 10 (newList True))))))"

lemma Add_lst:
  assumes "list_inv l"
  shows "list_inv (fst (list_Add tx bump l))" "strict (fst (list_Add tx bump l)) = strict l"
    "lst (fst (list_Add tx bump l)) = (if add_ok bump tx (lst l) then ins_tx tx (lst l) else lst l)"
proof -
  obtain l' b old where a: "list_Add tx bump l = (l', b, old)" by (cases "list_Add tx bump l")
  note ok = list_Add_ok(1-4)[OF assms a]
  show "list_inv (fst (list_Add tx bump l))" "strict (fst (list_Add tx bump l)) = strict l"
    "lst (fst (list_Add tx bump l)) = (if add_ok bump tx (lst l) then ins_tx tx (lst l) else lst l)"
    using ok by (simp_all add: a)
qed

lemma sample_list3_ok: "list_inv sample_list3" "lst sample_list3 = [sample_at 5 0, sample_at 6 9, sample_at 7 0]" "strict sample_list3"
proof -
  let ?l1 = "fst (list_Add (sample_at 6 9) 10 (newList True))"
  let ?l2 = "fst (list_Add (sample_at 5 0) 10 ?l1)"
  have l1: "list_inv ?l1" "strict ?l1" "lst ?l1 = [sample_at 6 9]"
    using Add_lst[OF list_inv_new(1), of "sample_at 6 9" 10 True]
    by (simp_all add: list_inv_new add_ok_def at_nonce_def ins_tx_def)
  have l2: "list_inv ?l2" "strict ?l2" "lst ?l2 = [sample_at 5 0, sample_at 6 9]"
    using Add_lst[OF l1(1), of "sample_at 5 0" 10] by (simp_all add: l1 add_ok_def at_nonce_def ins_tx_def)
  show "list_inv sample_list3" "lst sample_list3 = [sample_at 5 0, sample_at 6 9, sample_at 7 0]" "strict sample_list3"
    using Add_lst[OF l2(1), of "sample_at 7 0" 10]
    by (simp_all add: sample_list3_def l2 add_ok_def at_nonce_def ins_tx_def)
qed

theorem list_Filter_exact_witness:
  "case list_Filter 600005 100000 sample_list3 of (l', removed, invalids) \<Rightarrow>
     lst l' = [sample_at 5 0] \<and> removed = [sample_at 6 9] \<and> invalids = [sample_at 7 0]"
  using list_Filter_exact[OF sample_list3_ok(1), of 600005 100000]
  by (cases "list_Filter 600005 100000 sample_list3") (auto simp: sample_list3_ok over_def)

lemma bump_factor:
  assumes "uint (bump :: u64) < 2 ^ 63 - 100"
  shows "sint (100 + bump) = 100 + uint bump"
proof -
  have "uint (100 + bump) = 100 + uint bump"
    using assms by (simp add: uint_word_ariths(1))
  moreover from this have "uint (100 + bump) < 2 ^ 63" using assms by simp
  ultimately show ?thesis
    by (simp add: sint_uint signed_take_bit_int_eq_self)
qed

text \<open>
  C9. \<open>Add\<close> accepts a transaction exactly when its nonce is free or it raises both the fee cap and
  the tip of the stored one by the price bump; an accepted transaction takes the place of the one
  with its nonce, which is returned, and a refused one leaves the list untouched. A replacement
  pays at least the bump percentage more, less than one wei being lost to rounding.
\<close>

theorem list_Add_replaces:
  assumes "list_inv l" "list_Add tx bump l = (l', accepted, old)" "uint bump < 2 ^ 63 - 100"
  shows "list_inv l' \<and> lst l' = (if accepted then ins_tx tx (lst l) else lst l) \<and>
     (accepted \<longrightarrow> old = at_nonce (Nonce tx) (lst l)) \<and> (\<not> accepted \<longrightarrow> l' = l \<and> old = None) \<and>
     (at_nonce (Nonce tx) (lst l) = None \<longrightarrow> accepted) \<and>
     (\<forall>prev. at_nonce (Nonce tx) (lst l) = Some prev \<longrightarrow>
        accepted = price_bumped bump prev tx \<and>
        (accepted \<longrightarrow> GasFeeCap prev < GasFeeCap tx \<and> GasTipCap prev < GasTipCap tx \<and>
           (100 + uint bump) * GasFeeCap prev < 100 * (GasFeeCap tx + 1) \<and>
           (100 + uint bump) * GasTipCap prev < 100 * (GasTipCap tx + 1)))"
proof -
  have rnd: "a div 100 \<le> b \<Longrightarrow> a < 100 * (b + 1)" for a b :: int by presburger
  note ok = list_Add_ok[OF assms(1,2)]
  have "price_bumped bump prev tx \<Longrightarrow> GasFeeCap prev < GasFeeCap tx \<and> GasTipCap prev < GasTipCap tx \<and>
      (100 + uint bump) * GasFeeCap prev < 100 * (GasFeeCap tx + 1) \<and>
      (100 + uint bump) * GasTipCap prev < 100 * (GasTipCap tx + 1)" for prev
    unfolding price_bumped_def bump_factor[OF assms(3)] using rnd by blast
  then show ?thesis using ok(1,3-6) by (auto simp: add_ok_def)
qed

theorem list_Add_replaces_witness:
  "case list_Add (sample_at 6 100) 10 sample_list3 of (l', accepted, old) \<Rightarrow> \<not> accepted \<and> l' = sample_list3"
proof -
  obtain l' b old where a: "list_Add (sample_at 6 100) 10 sample_list3 = (l', b, old)"
    by (cases "list_Add (sample_at 6 100) 10 sample_list3")
  have "at_nonce 6 (lst sample_list3) = Some (sample_at 6 9)" by (simp add: sample_list3_ok at_nonce_def)
  then show ?thesis
    using list_Add_replaces[OF sample_list3_ok(1) a] a by (simp add: price_bumped_def)
qed

lemma run_consecutive: "i < length (run n xs) \<Longrightarrow> Nonce (run n xs ! i) = n + of_nat i"
proof (induction xs arbitrary: n i)
  case (Cons x xs)
  then show ?case by (cases i) (auto split: if_splits)
qed simp

lemma run_maximal:
  "drop (length (run n xs)) xs \<noteq> [] \<Longrightarrow> Nonce (hd (drop (length (run n xs)) xs)) \<noteq> n + of_nat (length (run n xs))"
proof (induction xs arbitrary: n)
  case (Cons x xs)
  then show ?case using Cons.IH[of "n + 1"] by (auto simp: add.assoc split: if_splits)
qed simp



end
