(* ===== verification/PricedList.thy ===== *)
theory PricedList
  imports TxList
begin

text \<open>
  The index structures of the pool: \<open>lookup\<close>, \<open>accountSet\<close> (\<^verbatim>\<open>core/txpool/legacypool/legacypool.go\<close>),
  \<open>noncer\<close> (\<^verbatim>\<open>core/txpool/legacypool/noncer.go\<close>) and \<open>pricedList\<close> with its two price heaps
  (\<^verbatim>\<open>core/txpool/legacypool/list.go\<close>). Locks are left out: each operation runs under the lock its
  method takes. The sender of a transaction is the parameter \<open>sender\<close>, \<open>None\<close> when the signature is
  invalid; the state behind the noncer is the function \<open>fallback\<close> that reads a nonce from it.
\<close>

subsection \<open>Account sets\<close>

record accountSet =
  accounts :: "address list"
  as_cache :: "address list option"

definition as_add :: "address \<Rightarrow> accountSet \<Rightarrow> accountSet" where
  "as_add a s = s\<lparr>accounts := (if a \<in> set (accounts s) then accounts s else accounts s @ [a]), as_cache := None\<rparr>"

definition newAccountSet :: "address list \<Rightarrow> accountSet" where
  "newAccountSet addrs = fold as_add addrs \<lparr>accounts = [], as_cache = None\<rparr>"

definition as_contains :: "accountSet \<Rightarrow> address \<Rightarrow> bool" where
  "as_contains s a = (a \<in> set (accounts s))"

definition as_containsTx :: "(Transaction \<Rightarrow> address option) \<Rightarrow> accountSet \<Rightarrow> Transaction \<Rightarrow> bool" where
  "as_containsTx sender s tx = (case sender tx of None \<Rightarrow> False | Some a \<Rightarrow> as_contains s a)"

definition as_addTx :: "(Transaction \<Rightarrow> address option) \<Rightarrow> Transaction \<Rightarrow> accountSet \<Rightarrow> accountSet" where
  "as_addTx sender tx s = (case sender tx of None \<Rightarrow> s | Some a \<Rightarrow> as_add a s)"

definition as_flatten :: "accountSet \<Rightarrow> accountSet \<times> address list" where
  "as_flatten s = (case as_cache s of Some c \<Rightarrow> (s, c)
     | None \<Rightarrow> (s\<lparr>as_cache := Some (accounts s)\<rparr>, accounts s))"

definition as_merge :: "accountSet \<Rightarrow> accountSet \<Rightarrow> accountSet" where
  "as_merge other s =
     (fold (\<lambda>a s. s\<lparr>accounts := (if a \<in> set (accounts s) then accounts s else accounts s @ [a])\<rparr>) (accounts other) s)
       \<lparr>as_cache := None\<rparr>"

subsection \<open>The noncer\<close>

record noncer =
  fallback :: "address \<Rightarrow> u64"
  nonces :: "(address, u64) gomap"

definition newNoncer :: "(address \<Rightarrow> u64) \<Rightarrow> noncer" where
  "newNoncer statedb = \<lparr>fallback = statedb, nonces = []\<rparr>"

text \<open>Reading a key that is absent from a Go map gives the zero value.\<close>

definition read_nonce :: "noncer \<Rightarrow> address \<Rightarrow> u64" where
  "read_nonce txn a = (case map_of (nonces txn) a of None \<Rightarrow> 0 | Some n \<Rightarrow> n)"

definition load_nonce :: "address \<Rightarrow> noncer \<Rightarrow> noncer" where
  "load_nonce a txn =
     (if map_of (nonces txn) a = None \<and> fallback txn a \<noteq> 0
      then txn\<lparr>nonces := gm_put a (fallback txn a) (nonces txn)\<rparr> else txn)"

definition noncer_get :: "address \<Rightarrow> noncer \<Rightarrow> noncer \<times> u64" where
  "noncer_get a txn = (let txn' = load_nonce a txn in (txn', read_nonce txn' a))"

definition noncer_set :: "address \<Rightarrow> u64 \<Rightarrow> noncer \<Rightarrow> noncer" where
  "noncer_set a n txn = txn\<lparr>nonces := gm_put a n (nonces txn)\<rparr>"

definition noncer_setIfLower :: "address \<Rightarrow> u64 \<Rightarrow> noncer \<Rightarrow> noncer" where
  "noncer_setIfLower a n txn =
     (let txn' = load_nonce a txn
      in if read_nonce txn' a \<le> n then txn' else txn'\<lparr>nonces := gm_put a n (nonces txn')\<rparr>)"

definition noncer_setAll :: "(address, u64) gomap \<Rightarrow> noncer \<Rightarrow> noncer" where
  "noncer_setAll m txn = txn\<lparr>nonces := m\<rparr>"

subsection \<open>The lookup\<close>

record lookup =
  lk_slots :: int
  lk_locals :: "(hash, Transaction) gomap"
  lk_remotes :: "(hash, Transaction) gomap"

definition newLookup :: lookup where
  "newLookup = \<lparr>lk_slots = 0, lk_locals = [], lk_remotes = []\<rparr>"

definition txSlotSize :: u64 where "txSlotSize = 32 * 1024"

definition numSlots :: "Transaction \<Rightarrow> int" where
  "numSlots tx = uint ((tx_size tx + txSlotSize - 1) div txSlotSize)"

text \<open>\<open>Range\<close> stops as soon as the callback returns false.\<close>

fun range_loop :: "(hash \<Rightarrow> Transaction \<Rightarrow> bool \<Rightarrow> 's \<Rightarrow> 's \<times> bool) \<Rightarrow> bool \<Rightarrow> (hash, Transaction) gomap \<Rightarrow> 's \<Rightarrow> 's \<times> bool" where
  "range_loop f local [] s = (s, True)"
| "range_loop f local ((h, tx) # m) s =
     (let (s', more) = f h tx local s in if more then range_loop f local m s' else (s', False))"

definition lookup_Range :: "(hash \<Rightarrow> Transaction \<Rightarrow> bool \<Rightarrow> 's \<Rightarrow> 's \<times> bool) \<Rightarrow> bool \<Rightarrow> bool \<Rightarrow> lookup \<Rightarrow> 's \<Rightarrow> 's" where
  "lookup_Range f local remote t s =
     (let (s, more) = (if local then range_loop f True (lk_locals t) s else (s, True))
      in if more \<and> remote then fst (range_loop f False (lk_remotes t) s) else s)"

definition lookup_Get :: "lookup \<Rightarrow> hash \<Rightarrow> Transaction option" where
  "lookup_Get t h = (case map_of (lk_locals t) h of Some tx \<Rightarrow> Some tx | None \<Rightarrow> map_of (lk_remotes t) h)"

definition lookup_GetLocal :: "lookup \<Rightarrow> hash \<Rightarrow> Transaction option" where
  "lookup_GetLocal t h = map_of (lk_locals t) h"

definition lookup_GetRemote :: "lookup \<Rightarrow> hash \<Rightarrow> Transaction option" where
  "lookup_GetRemote t h = map_of (lk_remotes t) h"

definition lookup_Count :: "lookup \<Rightarrow> nat" where
  "lookup_Count t = length (lk_locals t) + length (lk_remotes t)"

definition lookup_LocalCount :: "lookup \<Rightarrow> nat" where "lookup_LocalCount t = length (lk_locals t)"
definition lookup_RemoteCount :: "lookup \<Rightarrow> nat" where "lookup_RemoteCount t = length (lk_remotes t)"
definition lookup_Slots :: "lookup \<Rightarrow> int" where "lookup_Slots t = lk_slots t"

definition lookup_Add :: "Transaction \<Rightarrow> bool \<Rightarrow> lookup \<Rightarrow> lookup" where
  "lookup_Add tx local t =
     (let t = t\<lparr>lk_slots := lk_slots t + numSlots tx\<rparr>
      in if local then t\<lparr>lk_locals := gm_put (tx_hash tx) tx (lk_locals t)\<rparr>
         else t\<lparr>lk_remotes := gm_put (tx_hash tx) tx (lk_remotes t)\<rparr>)"

definition lookup_Remove :: "hash \<Rightarrow> lookup \<Rightarrow> lookup" where
  "lookup_Remove h t =
     (case lookup_Get t h of
        None \<Rightarrow> t
      | Some tx \<Rightarrow> t\<lparr>lk_slots := lk_slots t - numSlots tx, lk_locals := gm_del h (lk_locals t),
                      lk_remotes := gm_del h (lk_remotes t)\<rparr>)"

text \<open>The entries to migrate are those of the map at the start of the iteration.\<close>

definition lookup_RemoteToLocals :: "(Transaction \<Rightarrow> address option) \<Rightarrow> accountSet \<Rightarrow> lookup \<Rightarrow> lookup \<times> nat" where
  "lookup_RemoteToLocals sender locals t =
     fold (\<lambda>(h, tx) (t, migrated).
             if as_containsTx sender locals tx
             then (t\<lparr>lk_locals := gm_put h tx (lk_locals t), lk_remotes := gm_del h (lk_remotes t)\<rparr>, migrated + 1)
             else (t, migrated)) (lk_remotes t) (t, 0)"

definition lookup_RemotesBelowTip :: "int \<Rightarrow> lookup \<Rightarrow> Transaction list" where
  "lookup_RemotesBelowTip threshold t =
     lookup_Range (\<lambda>h tx local found. (if GasTipCapIntCmp tx threshold < 0 then found @ [tx] else found, True))
       False True t []"

subsection \<open>Price heaps\<close>

record priceHeap =
  baseFee :: "int option"
  plist :: "Transaction list"

definition price_cmp :: "int option \<Rightarrow> Transaction \<Rightarrow> Transaction \<Rightarrow> int" where
  "price_cmp bf a b =
     (let c = (if bf \<noteq> None then EffectiveGasTipCmp a b bf else 0)
      in if c \<noteq> 0 then c
         else let c = GasFeeCapCmp a b in if c \<noteq> 0 then c else GasTipCapCmp a b)"

definition price_less :: "int option \<Rightarrow> Transaction \<Rightarrow> Transaction \<Rightarrow> bool" where
  "price_less bf a b =
     (let c = price_cmp bf a b
      in if c = -1 then True else if c = 1 then False else Nonce a > Nonce b)"

definition priceHeap_push :: "Transaction \<Rightarrow> priceHeap \<Rightarrow> priceHeap" where
  "priceHeap_push tx h = h\<lparr>plist := heap_Push (price_less (baseFee h)) tx (plist h)\<rparr>"

definition priceHeap_pop :: "priceHeap \<Rightarrow> (Transaction \<times> priceHeap) option" where
  "priceHeap_pop h = do { (tx, ts) \<leftarrow> heap_Pop (price_less (baseFee h)) (plist h); Some (tx, h\<lparr>plist := ts\<rparr>) }"

definition priceHeap_init :: "priceHeap \<Rightarrow> priceHeap" where
  "priceHeap_init h = h\<lparr>plist := heap_Init (price_less (baseFee h)) (plist h)\<rparr>"

lemma priceHeap_pop_length: "priceHeap_pop h = Some (tx, h') \<Longrightarrow> length (plist h) = Suc (length (plist h'))"
  by (auto simp: priceHeap_pop_def dest!: heap_Pop_length split: Option.bind_splits)

subsection \<open>The priced list\<close>

record pricedList =
  stales :: int
  urgent :: priceHeap
  floating :: priceHeap

definition newPricedList :: pricedList where
  "newPricedList = \<lparr>stales = 0, urgent = \<lparr>baseFee = None, plist = []\<rparr>, floating = \<lparr>baseFee = None, plist = []\<rparr>\<rparr>"

definition urgentRatio :: nat where "urgentRatio = 4"
definition floatingRatio :: nat where "floatingRatio = 1"

definition priced_Put :: "Transaction \<Rightarrow> bool \<Rightarrow> pricedList \<Rightarrow> pricedList" where
  "priced_Put tx local l = (if local then l else l\<lparr>urgent := priceHeap_push tx (urgent l)\<rparr>)"

fun pop_n :: "nat \<Rightarrow> priceHeap \<Rightarrow> Transaction list \<Rightarrow> (priceHeap \<times> Transaction list) option" where
  "pop_n 0 h acc = Some (h, acc)"
| "pop_n (Suc n) h acc = do { (tx, h') \<leftarrow> priceHeap_pop h; pop_n n h' (acc @ [tx]) }"

definition Reheap :: "lookup \<Rightarrow> pricedList \<Rightarrow> pricedList option" where
  "Reheap all l =
     (let ts = lookup_Range (\<lambda>h tx local acc. (acc @ [tx], True)) False True all [];
          u = priceHeap_init ((urgent l)\<lparr>plist := ts\<rparr>);
          floatingCount = length (plist u) * floatingRatio div (urgentRatio + floatingRatio)
      in do { (u', fs) \<leftarrow> pop_n floatingCount u [];
              Some (l\<lparr>stales := 0, urgent := u', floating := priceHeap_init ((floating l)\<lparr>plist := fs\<rparr>)\<rparr>) })"

definition priced_Removed :: "lookup \<Rightarrow> nat \<Rightarrow> pricedList \<Rightarrow> pricedList option" where
  "priced_Removed all cnt l =
     (let l = l\<lparr>stales := stales l + int cnt\<rparr>
      in if stales l \<le> int ((length (plist (urgent l)) + length (plist (floating l))) div 4)
         then Some l else Reheap all l)"

text \<open>Stale entries at the head are popped; the counter of stale entries goes down with each.\<close>

function pop_stale :: "lookup \<Rightarrow> priceHeap \<Rightarrow> int \<Rightarrow> priceHeap \<times> int" where
  "pop_stale all h st =
     (if plist h \<noteq> [] \<and> lookup_GetRemote all (tx_hash (hd (plist h))) = None
      then (case priceHeap_pop h of None \<Rightarrow> (h, st) | Some (_, h') \<Rightarrow> pop_stale all h' (st - 1))
      else (h, st))"
  by pat_completeness auto
termination
  by (relation "measure (\<lambda>(_, h, _). length (plist h))") (auto dest: priceHeap_pop_length)

declare pop_stale.simps [simp del]

definition underpricedFor :: "lookup \<Rightarrow> Transaction \<Rightarrow> priceHeap \<Rightarrow> int \<Rightarrow> bool \<times> priceHeap \<times> int" where
  "underpricedFor all tx h st =
     (let (h', st') = pop_stale all h st
      in if plist h' = [] then (False, h', st')
         else (price_cmp (baseFee h') (hd (plist h')) tx \<ge> 0, h', st'))"

text \<open>The second heap is only looked at when the first conjunct holds.\<close>

definition Underpriced :: "lookup \<Rightarrow> Transaction \<Rightarrow> pricedList \<Rightarrow> bool \<times> pricedList" where
  "Underpriced all tx l =
     (let (u, h, st) = underpricedFor all tx (urgent l) (stales l);
          l = l\<lparr>urgent := h, stales := st\<rparr>
      in if u \<or> plist (urgent l) = [] then
           let (f, h, st) = underpricedFor all tx (floating l) (stales l);
               l = l\<lparr>floating := h, stales := st\<rparr>
           in if f \<or> plist (floating l) = []
              then (plist (urgent l) \<noteq> [] \<or> plist (floating l) \<noteq> [], l) else (False, l)
         else (False, l))"

function discard_loop :: "lookup \<Rightarrow> int \<Rightarrow> pricedList \<Rightarrow> Transaction list \<Rightarrow> int \<times> pricedList \<times> Transaction list" where
  "discard_loop all slots l dropped =
     (if slots > 0 then
        if length (plist (urgent l)) * floatingRatio > length (plist (floating l)) * urgentRatio then
          (case priceHeap_pop (urgent l) of
             None \<Rightarrow> (slots, l, dropped)
           | Some (tx, h) \<Rightarrow>
               let l = l\<lparr>urgent := h\<rparr>
               in if lookup_GetRemote all (tx_hash tx) = None
                  then discard_loop all slots (l\<lparr>stales := stales l - 1\<rparr>) dropped
                  else discard_loop all slots (l\<lparr>floating := priceHeap_push tx (floating l)\<rparr>) dropped)
        else if plist (floating l) = [] then (slots, l, dropped)
        else (case priceHeap_pop (floating l) of
                None \<Rightarrow> (slots, l, dropped)
              | Some (tx, h) \<Rightarrow>
                  let l = l\<lparr>floating := h\<rparr>
                  in if lookup_GetRemote all (tx_hash tx) = None
                     then discard_loop all slots (l\<lparr>stales := stales l - 1\<rparr>) dropped
                     else discard_loop all (slots - numSlots tx) l (dropped @ [tx]))
      else (slots, l, dropped))"
  by pat_completeness auto
termination
proof (relation "measure (\<lambda>(_, _, l, _). 2 * length (plist (urgent l)) + length (plist (floating l)))", goal_cases)
  case (3 all slots l dropped x2 tx h x)
  have "length (plist (priceHeap_push tx (floating l))) = Suc (length (plist (floating l)))"
    using heap_up_mset[of "length (plist (floating l))" "plist (floating l) @ [tx]"]
    by (simp add: priceHeap_push_def heap_Push_def)
  with 3 show ?case by (auto dest: priceHeap_pop_length)
qed (auto dest: priceHeap_pop_length)

declare discard_loop.simps [simp del]

definition Discard :: "lookup \<Rightarrow> int \<Rightarrow> bool \<Rightarrow> pricedList \<Rightarrow> pricedList \<times> Transaction list \<times> bool" where
  "Discard all slots force l =
     (let (slots, l, dropped) = discard_loop all slots l []
      in if slots > 0 \<and> \<not> force
         then (fold (\<lambda>tx l. l\<lparr>urgent := priceHeap_push tx (urgent l)\<rparr>) dropped l, [], False)
         else (l, dropped, True))"

definition SetBaseFee :: "lookup \<Rightarrow> int option \<Rightarrow> pricedList \<Rightarrow> pricedList option" where
  "SetBaseFee all bf l = Reheap all (l\<lparr>urgent := (urgent l)\<lparr>baseFee := bf\<rparr>\<rparr>)"

subsection \<open>The price order\<close>

definition effective :: "int option \<Rightarrow> Transaction \<Rightarrow> int" where
  "effective bf t = (if bf = None then 0 else EffectiveGasTipValue t bf)"

lemma price_cmp_iff:
  "price_cmp bf a b = (if effective bf a \<noteq> effective bf b then big_cmp (effective bf a) (effective bf b)
     else if GasFeeCap a \<noteq> GasFeeCap b then big_cmp (GasFeeCap a) (GasFeeCap b)
     else big_cmp (GasTipCap a) (GasTipCap b))"
  by (simp add: price_cmp_def effective_def EffectiveGasTipCmp_def GasFeeCapCmp_def GasTipCapCmp_def Let_def)

lemma price_less_iff:
  "price_less bf a b \<longleftrightarrow>
     effective bf a < effective bf b \<or> effective bf a = effective bf b \<and>
     (GasFeeCap a < GasFeeCap b \<or> GasFeeCap a = GasFeeCap b \<and>
     (GasTipCap a < GasTipCap b \<or> GasTipCap a = GasTipCap b \<and> Nonce b < Nonce a))"
  by (auto simp: price_less_def price_cmp_iff Let_def)

interpretation price_heap: heap_order "price_less bf" for bf
  by unfold_locales (auto simp: price_less_iff)

lemma price_cmp_trans: "\<not> price_less bf b a \<Longrightarrow> 0 \<le> price_cmp bf a c \<Longrightarrow> 0 \<le> price_cmp bf b c"
  by (auto simp: price_less_iff price_cmp_iff split: if_splits)

definition heap_ok :: "priceHeap \<Rightarrow> bool" where
  "heap_ok h \<longleftrightarrow> is_heap (price_less (baseFee h)) (plist h)"

lemma push_ok:
  assumes "heap_ok h"
  shows "heap_ok (priceHeap_push tx h)" "mset (plist (priceHeap_push tx h)) = add_mset tx (mset (plist h))"
    "baseFee (priceHeap_push tx h) = baseFee h"
  using price_heap.Push_ok[of "baseFee h" "plist h" tx] assms by (simp_all add: heap_ok_def priceHeap_push_def)

lemma pop_ok:
  assumes "heap_ok h" "plist h \<noteq> []"
  shows "\<exists>h'. priceHeap_pop h = Some (hd (plist h), h') \<and> heap_ok h' \<and> baseFee h' = baseFee h \<and>
     mset (plist h) = add_mset (hd (plist h)) (mset (plist h'))"
  using price_heap.Pop_ok[of "baseFee h" "plist h"] assms by (auto simp: heap_ok_def priceHeap_pop_def)

lemma init_ok: "heap_ok (priceHeap_init h)" "mset (plist (priceHeap_init h)) = mset (plist h)"
  "baseFee (priceHeap_init h) = baseFee h"
  by (simp_all add: heap_ok_def priceHeap_init_def price_heap.Init_ok)

lemma heap_ok_min: "heap_ok h \<Longrightarrow> t \<in> set (plist h) \<Longrightarrow> \<not> price_less (baseFee h) t (hd (plist h))"
  using price_heap.hd_min by (simp add: heap_ok_def)

subsection \<open>Rebuilding the heaps\<close>

lemma range_all: "range_loop (\<lambda>h tx local acc. (acc @ [tx], True)) b m s = (s @ map snd m, True)"
  by (induction m arbitrary: s) auto

lemma pop_n_ok:
  "heap_ok h \<Longrightarrow> n \<le> length (plist h) \<Longrightarrow>
   \<exists>h' ts. pop_n n h acc = Some (h', acc @ ts) \<and> length ts = n \<and> heap_ok h' \<and> baseFee h' = baseFee h \<and>
     mset (plist h) = mset ts + mset (plist h') \<and>
     (\<forall>t\<in>set ts. \<forall>u\<in>set (plist h'). \<not> price_less (baseFee h) u t)"
proof (induction n arbitrary: h acc)
  case (Suc n)
  then have "plist h \<noteq> []" by auto
  from pop_ok[OF Suc.prems(1) this] obtain h1 where
    h1: "priceHeap_pop h = Some (hd (plist h), h1)" "heap_ok h1" "baseFee h1 = baseFee h"
      "mset (plist h) = add_mset (hd (plist h)) (mset (plist h1))" by blast
  have "n \<le> length (plist h1)" using Suc.prems(2) arg_cong[OF h1(4), of size] by simp
  from Suc.IH[OF h1(2) this, of "acc @ [hd (plist h)]"] h1(3) obtain h' ts where
    h': "pop_n n h1 (acc @ [hd (plist h)]) = Some (h', acc @ hd (plist h) # ts)" "length ts = n" "heap_ok h'"
      "baseFee h' = baseFee h" "mset (plist h1) = mset ts + mset (plist h')"
      "\<forall>t\<in>set ts. \<forall>u\<in>set (plist h'). \<not> price_less (baseFee h) u t" by auto
  have "set (plist h') \<subseteq> set (plist h)"
    using h1(4) h'(5) by (metis set_mset_mset set_mset_union set_mset_add_mset_insert sup_ge2 subset_insertI2)
  then have "\<forall>u\<in>set (plist h'). \<not> price_less (baseFee h) u (hd (plist h))"
    using heap_ok_min[OF Suc.prems(1)] by blast
  with h1 h' show ?case
    by (intro exI[of _ h'] exI[of _ "hd (plist h) # ts"]) auto
qed simp

definition remote_txs :: "lookup \<Rightarrow> Transaction list" where
  "remote_txs all = map snd (lk_remotes all)"

definition priced_ok :: "pricedList \<Rightarrow> bool" where
  "priced_ok l \<longleftrightarrow> heap_ok (urgent l) \<and> heap_ok (floating l)"

lemma Reheap_ok:
  "\<exists>l'. Reheap all l = Some l' \<and> priced_ok l' \<and> stales l' = 0 \<and>
     baseFee (urgent l') = baseFee (urgent l) \<and> baseFee (floating l') = baseFee (floating l) \<and>
     mset (plist (urgent l')) + mset (plist (floating l')) = mset (remote_txs all) \<and>
     length (plist (floating l')) = length (lk_remotes all) div 5 \<and>
     (\<forall>f\<in>set (plist (floating l')). \<forall>u\<in>set (plist (urgent l')). \<not> price_less (baseFee (urgent l)) u f)"
proof -
  let ?u = "priceHeap_init ((urgent l)\<lparr>plist := remote_txs all\<rparr>)"
  let ?n = "length (plist ?u) * floatingRatio div (urgentRatio + floatingRatio)"
  have len: "length (plist ?u) = length (lk_remotes all)"
    using arg_cong[OF init_ok(2)[of "(urgent l)\<lparr>plist := remote_txs all\<rparr>"], of size] by (simp add: remote_txs_def)
  then have n: "?n = length (lk_remotes all) div 5" "?n \<le> length (plist ?u)"
    by (simp_all add: floatingRatio_def urgentRatio_def)
  from pop_n_ok[OF init_ok(1) n(2), of "[]"] obtain u' fs where
    u': "pop_n ?n ?u [] = Some (u', fs)" "length fs = ?n" "heap_ok u'" "baseFee u' = baseFee (urgent l)"
      "mset (remote_txs all) = mset fs + mset (plist u')"
      "\<forall>t\<in>set fs. \<forall>u\<in>set (plist u'). \<not> price_less (baseFee (urgent l)) u t"
    by (auto simp: init_ok)
  let ?f = "priceHeap_init ((floating l)\<lparr>plist := fs\<rparr>)"
  have f: "mset (plist ?f) = mset fs" "heap_ok ?f" "baseFee ?f = baseFee (floating l)" by (simp_all add: init_ok)
  have "set (plist ?f) = set fs" "length (plist ?f) = length fs"
    using mset_eq_setD[OF f(1)] mset_eq_length[OF f(1)] by simp_all
  moreover have "Reheap all l = Some (l\<lparr>stales := 0, urgent := u', floating := ?f\<rparr>)"
    using u'(1) by (simp add: Reheap_def lookup_Range_def range_all Let_def flip: remote_txs_def)
  ultimately show ?thesis
    using u' f n by (simp add: priced_ok_def union_commute)
qed

subsection \<open>Underpriced transactions\<close>

definition remote :: "lookup \<Rightarrow> Transaction \<Rightarrow> bool" where
  "remote all t \<longleftrightarrow> lookup_GetRemote all (tx_hash t) \<noteq> None"

text \<open>The transactions of a heap that are still tracked as remote.\<close>

definition live :: "lookup \<Rightarrow> priceHeap \<Rightarrow> Transaction multiset" where
  "live all h = filter_mset (remote all) (mset (plist h))"

lemma pop_stale_ok:
  "heap_ok h \<Longrightarrow> \<exists>h' st'. pop_stale all h st = (h', st') \<and> heap_ok h' \<and> baseFee h' = baseFee h \<and>
     live all h' = live all h \<and> set (plist h') \<subseteq> set (plist h) \<and>
     (plist h' = [] \<or> remote all (hd (plist h')))"
proof (induction "length (plist h)" arbitrary: h st rule: less_induct)
  case less
  show ?case
  proof (cases "plist h \<noteq> [] \<and> \<not> remote all (hd (plist h))")
    case True
    with pop_ok[OF less.prems] obtain h1 where
      h1: "priceHeap_pop h = Some (hd (plist h), h1)" "heap_ok h1" "baseFee h1 = baseFee h"
        "mset (plist h) = add_mset (hd (plist h)) (mset (plist h1))" by blast
    have step: "pop_stale all h st = pop_stale all h1 (st - 1)"
      using True h1(1) by (simp add: pop_stale.simps[of all h] remote_def)
    have live: "live all h1 = live all h" using True h1(4) by (simp add: live_def)
    have sub: "set (plist h1) \<subseteq> set (plist h)"
      using h1(4) by (metis set_mset_mset set_mset_add_mset_insert subset_insertI)
    from less.hyps[OF _ h1(2), of "st - 1"] priceHeap_pop_length[OF h1(1)] show ?thesis
      using step live sub h1(3) by auto
  next
    case False
    then show ?thesis using less.prems by (auto simp: pop_stale.simps[of all h] remote_def)
  qed
qed

lemma live_empty:
  "plist h = [] \<or> remote all (hd (plist h)) \<Longrightarrow> live all h = {#} \<longleftrightarrow> plist h = []"
  by (cases "plist h") (auto simp: live_def)

lemma underpricedFor_ok:
  assumes "heap_ok h"
  shows "\<exists>b h' st'. underpricedFor all tx h st = (b, h', st') \<and> heap_ok h' \<and> baseFee h' = baseFee h \<and>
     live all h' = live all h \<and> (plist h' = [] \<longleftrightarrow> live all h = {#}) \<and>
     (b \<longleftrightarrow> live all h \<noteq> {#} \<and> (\<forall>t\<in>#live all h. 0 \<le> price_cmp (baseFee h) t tx))"
proof -
  from pop_stale_ok[OF assms, of all st] obtain h' st' where
    h': "pop_stale all h st = (h', st')" "heap_ok h'" "baseFee h' = baseFee h" "live all h' = live all h"
      "plist h' = [] \<or> remote all (hd (plist h'))" by blast
  have empty: "plist h' = [] \<longleftrightarrow> live all h = {#}" using live_empty[OF h'(5)] h'(4) by simp
  have "0 \<le> price_cmp (baseFee h) (hd (plist h')) tx \<longleftrightarrow> (\<forall>t\<in>#live all h. 0 \<le> price_cmp (baseFee h) t tx)"
    if "plist h' \<noteq> []"
  proof -
    have "hd (plist h') \<in># live all h" using that h'(5) unfolding h'(4)[symmetric] by (simp add: live_def)
    moreover have "0 \<le> price_cmp (baseFee h) t tx"
      if "t \<in># live all h" "0 \<le> price_cmp (baseFee h) (hd (plist h')) tx" for t
      using price_cmp_trans[OF _ that(2)] heap_ok_min[OF h'(2), of t] that(1) h'(3)
      unfolding h'(4)[symmetric] by (simp add: live_def)
    ultimately show ?thesis by blast
  qed
  then show ?thesis using h' empty by (simp add: underpricedFor_def)
qed

lemma Underpriced_ok:
  assumes "priced_ok l"
  shows "\<exists>l'. Underpriced all tx l =
      (live all (urgent l) + live all (floating l) \<noteq> {#} \<and>
       (\<forall>t\<in>#live all (urgent l). 0 \<le> price_cmp (baseFee (urgent l)) t tx) \<and>
       (\<forall>t\<in>#live all (floating l). 0 \<le> price_cmp (baseFee (floating l)) t tx), l') \<and>
     priced_ok l' \<and> live all (urgent l') = live all (urgent l) \<and> live all (floating l') = live all (floating l)"
proof -
  let ?U = "live all (urgent l)" and ?F = "live all (floating l)"
  have ok: "heap_ok (urgent l)" "heap_ok (floating l)" using assms by (simp_all add: priced_ok_def)
  obtain b u st where
    u: "underpricedFor all tx (urgent l) (stales l) = (b, u, st)" "heap_ok u" "baseFee u = baseFee (urgent l)"
      "live all u = ?U" "plist u = [] \<longleftrightarrow> ?U = {#}"
      "b \<longleftrightarrow> ?U \<noteq> {#} \<and> (\<forall>t\<in>#?U. 0 \<le> price_cmp (baseFee (urgent l)) t tx)"
    using underpricedFor_ok[OF ok(1), of all tx "stales l"] by blast
  obtain c f st2 where
    f: "underpricedFor all tx (floating l) st = (c, f, st2)" "heap_ok f" "baseFee f = baseFee (floating l)"
      "live all f = ?F" "plist f = [] \<longleftrightarrow> ?F = {#}"
      "c \<longleftrightarrow> ?F \<noteq> {#} \<and> (\<forall>t\<in>#?F. 0 \<le> price_cmp (baseFee (floating l)) t tx)"
    using underpricedFor_ok[OF ok(2), of all tx st] by blast
  let ?PU = "\<forall>t\<in>#?U. 0 \<le> price_cmp (baseFee (urgent l)) t tx"
  let ?PF = "\<forall>t\<in>#?F. 0 \<le> price_cmp (baseFee (floating l)) t tx"
  have bu: "b \<or> plist u = [] \<longleftrightarrow> ?PU" using u(5,6) by auto
  have cf: "c \<or> plist f = [] \<longleftrightarrow> ?PF" using f(5,6) by auto
  show ?thesis
  proof (cases ?PU)
    case True
    let ?l = "l\<lparr>urgent := u, stales := st2, floating := f\<rparr>"
    have "Underpriced all tx l = (?PF \<and> (plist u \<noteq> [] \<or> plist f \<noteq> []), ?l)"
      using True bu cf u(1) f(1) by (simp add: Underpriced_def Let_def)
    moreover have "priced_ok ?l" using u(2) f(2) by (simp add: priced_ok_def)
    ultimately show ?thesis using True u(4,5) f(4,5) by (intro exI[of _ ?l]) auto
  next
    case False
    let ?l = "l\<lparr>urgent := u, stales := st\<rparr>"
    have "\<not> b" "plist u \<noteq> []" using bu False by blast+
    then have "Underpriced all tx l = (False, ?l)"
      using u(1) by (simp add: Underpriced_def Let_def)
    moreover have "priced_ok ?l" using u(2) ok(2) by (simp add: priced_ok_def)
    ultimately show ?thesis using False u(4) by (intro exI[of _ ?l]) simp
  qed
qed

subsection \<open>Making room\<close>

definition slots_of_txs :: "Transaction list \<Rightarrow> int" where
  "slots_of_txs ts = sum_list (map numSlots ts)"

definition discarded :: "lookup \<Rightarrow> int \<Rightarrow> pricedList \<Rightarrow> Transaction list \<Rightarrow> int \<times> pricedList \<times> Transaction list \<Rightarrow> bool" where
  "discarded all slots l d r \<longleftrightarrow> (\<exists>l' ts. r = (slots - slots_of_txs ts, l', d @ ts) \<and> priced_ok l' \<and>
     (\<forall>t\<in>set ts. remote all t) \<and>
     live all (urgent l') + live all (floating l') + mset ts = live all (urgent l) + live all (floating l) \<and>
     (slots - slots_of_txs ts \<le> 0 \<or> plist (urgent l') = [] \<and> plist (floating l') = []))"

lemma discarded_same:
  "discarded all slots l1 d r \<Longrightarrow>
   live all (urgent l1) + live all (floating l1) = live all (urgent l) + live all (floating l) \<Longrightarrow>
   discarded all slots l d r"
  by (simp add: discarded_def)

lemma discarded_drop:
  assumes "discarded all (slots - numSlots t) l1 (d @ [t]) r" "remote all t"
    "add_mset t (live all (urgent l1) + live all (floating l1)) = live all (urgent l) + live all (floating l)"
  shows "discarded all slots l d r"
proof -
  from assms(1) obtain l' ts where "r = (slots - numSlots t - slots_of_txs ts, l', (d @ [t]) @ ts)" "priced_ok l'"
    "\<forall>t\<in>set ts. remote all t"
    "live all (urgent l') + live all (floating l') + mset ts = live all (urgent l1) + live all (floating l1)"
    "slots - numSlots t - slots_of_txs ts \<le> 0 \<or> plist (urgent l') = [] \<and> plist (floating l') = []"
    unfolding discarded_def by blast
  then show ?thesis using assms(2,3) unfolding discarded_def
    by (intro exI[of _ l'] exI[of _ "t # ts"]) (auto simp: slots_of_txs_def diff_diff_eq)
qed

lemma discarded_now:
  "priced_ok l \<Longrightarrow> slots \<le> 0 \<or> plist (urgent l) = [] \<and> plist (floating l) = [] \<Longrightarrow> discarded all slots l d (slots, l, d)"
  unfolding discarded_def by (intro exI[of _ l] exI[of _ "[]"]) (simp add: slots_of_txs_def)

lemma discard_loop_ok: "priced_ok l \<Longrightarrow> discarded all slots l d (discard_loop all slots l d)"
proof (induction "2 * length (plist (urgent l)) + length (plist (floating l))" arbitrary: slots l d rule: less_induct)
  case less
  have ok: "heap_ok (urgent l)" "heap_ok (floating l)" using less.prems by (simp_all add: priced_ok_def)
  let ?U = "length (plist (urgent l)) * floatingRatio > length (plist (floating l)) * urgentRatio"
  consider "slots \<le> 0" | "slots > 0" ?U | "slots > 0" "\<not> ?U" "plist (floating l) = []" | "slots > 0" "\<not> ?U" "plist (floating l) \<noteq> []"
    by linarith
  then show ?case
  proof cases
    case 1
    then show ?thesis using discarded_now[OF less.prems] by (simp add: discard_loop.simps[of all slots])
  next
    case 2
    then have "plist (urgent l) \<noteq> []" by auto
    from pop_ok[OF ok(1) this] obtain t h where
      h: "priceHeap_pop (urgent l) = Some (t, h)" "heap_ok h" "mset (plist (urgent l)) = add_mset t (mset (plist h))" by blast
    note len = priceHeap_pop_length[OF h(1)]
    let ?l1 = "l\<lparr>urgent := h, stales := stales l - 1\<rparr>" and ?l2 = "l\<lparr>urgent := h, floating := priceHeap_push t (floating l)\<rparr>"
    have step: "discard_loop all slots l d = (if remote all t then discard_loop all slots ?l2 d else discard_loop all slots ?l1 d)"
      using 2 h(1) by (auto simp: discard_loop.simps[of all slots l] remote_def Let_def)
    have "length (plist (priceHeap_push t (floating l))) = Suc (length (plist (floating l)))"
      using arg_cong[OF push_ok(2)[OF ok(2), of t], of size] by simp
    then have "discarded all slots ?l2 d (discard_loop all slots ?l2 d)"
      using less.hyps[of ?l2 slots d] len h(2) push_ok[OF ok(2), of t] by (simp add: priced_ok_def)
    moreover have "discarded all slots ?l1 d (discard_loop all slots ?l1 d)"
      using less.hyps[of ?l1 slots d] len h(2) ok by (simp add: priced_ok_def)
    ultimately show ?thesis
      unfolding step using h(3) push_ok(2)[OF ok(2), of t]
      by (auto intro!: discarded_same[where l = l] simp: live_def)
  next
    case 3
    then have "plist (urgent l) = []" by (simp add: floatingRatio_def)
    then show ?thesis using 3 discarded_now[OF less.prems] by (simp add: discard_loop.simps[of all slots])
  next
    case 4
    from pop_ok[OF ok(2) 4(3)] obtain t h where
      h: "priceHeap_pop (floating l) = Some (t, h)" "heap_ok h" "mset (plist (floating l)) = add_mset t (mset (plist h))" by blast
    note len = priceHeap_pop_length[OF h(1)]
    let ?l1 = "l\<lparr>floating := h, stales := stales l - 1\<rparr>" and ?l2 = "l\<lparr>floating := h\<rparr>"
    have step: "discard_loop all slots l d =
       (if remote all t then discard_loop all (slots - numSlots t) ?l2 (d @ [t]) else discard_loop all slots ?l1 d)"
      using 4 h(1) by (auto simp: discard_loop.simps[of all slots l] remote_def Let_def)
    have "discarded all (slots - numSlots t) ?l2 (d @ [t]) (discard_loop all (slots - numSlots t) ?l2 (d @ [t]))"
      using less.hyps[of ?l2 "slots - numSlots t" "d @ [t]"] len h(2) ok by (simp add: priced_ok_def)
    moreover have "discarded all slots ?l1 d (discard_loop all slots ?l1 d)"
      using less.hyps[of ?l1 slots d] len h(2) ok by (simp add: priced_ok_def)
    ultimately show ?thesis
      unfolding step using h(3)
      by (auto intro!: discarded_same[where l = l] discarded_drop[where l = l] simp: live_def)
  qed
qed

lemma fold_push_ok:
  "priced_ok l \<Longrightarrow> priced_ok (fold (\<lambda>tx l. l\<lparr>urgent := priceHeap_push tx (urgent l)\<rparr>) ts l) \<and>
   mset (plist (urgent (fold (\<lambda>tx l. l\<lparr>urgent := priceHeap_push tx (urgent l)\<rparr>) ts l))) = mset (plist (urgent l)) + mset ts \<and>
   floating (fold (\<lambda>tx l. l\<lparr>urgent := priceHeap_push tx (urgent l)\<rparr>) ts l) = floating l"
proof (induction ts arbitrary: l)
  case (Cons t ts)
  let ?l = "l\<lparr>urgent := priceHeap_push t (urgent l)\<rparr>"
  have "priced_ok ?l" using Cons.prems push_ok by (simp add: priced_ok_def)
  from Cons.IH[OF this] show ?case using push_ok(2)[of "urgent l" t] Cons.prems by (simp add: priced_ok_def)
qed simp

lemma live_all_remote: "\<forall>t\<in>set ts. remote all t \<Longrightarrow> mset (plist h') = mset (plist h) + mset ts \<Longrightarrow> live all h' = live all h + mset ts"
  by (simp add: live_def) (metis set_mset_mset filter_mset_cong filter_mset_True)

text \<open>
  C15. \<open>Underpriced\<close> pops only stale entries and answers true exactly when some remote transaction is
  tracked and the new one is not priced above any remote transaction of either heap, each heap
  under its own base fee.
\<close>

theorem Underpriced_iff_worst:
  assumes "priced_ok l"
  shows "\<exists>b l'. Underpriced all tx l = (b, l') \<and> priced_ok l' \<and>
     live all (urgent l') = live all (urgent l) \<and> live all (floating l') = live all (floating l) \<and>
     (b \<longleftrightarrow> live all (urgent l) + live all (floating l) \<noteq> {#} \<and>
       (\<forall>t\<in>#live all (urgent l). price_cmp (baseFee (urgent l)) t tx \<ge> 0) \<and>
       (\<forall>t\<in>#live all (floating l). price_cmp (baseFee (floating l)) t tx \<ge> 0))"
  using Underpriced_ok[OF assms, of all tx] by blast

definition sample_all :: lookup where
  "sample_all = lookup_Add (sample_at 5 0) False newLookup"

definition sample_priced :: pricedList where
  "sample_priced = priced_Put (sample_at 5 0) False newPricedList"

lemma sample_priced_ok:
  "priced_ok sample_priced" "live sample_all (urgent sample_priced) = {#sample_at 5 0#}"
  "live sample_all (floating sample_priced) = {#}" "baseFee (urgent sample_priced) = None"
proof -
  have new: "heap_ok (urgent newPricedList)" "heap_ok (floating newPricedList)" "plist (urgent newPricedList) = []"
    "plist (floating newPricedList) = []" "baseFee (urgent newPricedList) = None"
    by (simp_all add: newPricedList_def heap_ok_def is_heap_def)
  have r: "remote sample_all (sample_at 5 0)"
    by (simp add: remote_def sample_all_def lookup_GetRemote_def lookup_Add_def newLookup_def Let_def)
  show "priced_ok sample_priced" "live sample_all (urgent sample_priced) = {#sample_at 5 0#}"
    "live sample_all (floating sample_priced) = {#}" "baseFee (urgent sample_priced) = None"
    using new r push_ok[OF new(1), of "sample_at 5 0"]
    by (simp_all add: sample_priced_def priced_Put_def priced_ok_def live_def)
qed

theorem Underpriced_iff_worst_witness:
  "fst (Underpriced sample_all (sample_at 6 0) sample_priced)"
  using Underpriced_iff_worst[OF sample_priced_ok(1), of sample_all "sample_at 6 0"]
  by (auto simp: sample_priced_ok price_cmp_iff effective_def)

lemma Discard_ok:
  assumes "priced_ok l" "Discard all slots force l = (l', dropped, ok)"
  shows "priced_ok l' \<and> (\<forall>t\<in>set dropped. remote all t) \<and>
     live all (urgent l') + live all (floating l') + mset dropped = live all (urgent l) + live all (floating l) \<and>
     (ok \<longrightarrow> slots \<le> slots_of_txs dropped \<or> force \<and> plist (urgent l') = [] \<and> plist (floating l') = []) \<and>
     (\<not> ok \<longrightarrow> dropped = [] \<and> \<not> force)"
proof -
  from discard_loop_ok[OF assms(1), of all slots "[]"] obtain l1 ts where
    l1: "discard_loop all slots l [] = (slots - slots_of_txs ts, l1, ts)" "priced_ok l1" "\<forall>t\<in>set ts. remote all t"
      "live all (urgent l1) + live all (floating l1) + mset ts = live all (urgent l) + live all (floating l)"
      "slots - slots_of_txs ts \<le> 0 \<or> plist (urgent l1) = [] \<and> plist (floating l1) = []"
    by (auto simp: discarded_def)
  show ?thesis
  proof (cases "slots - slots_of_txs ts > 0 \<and> \<not> force")
    case True
    let ?l2 = "fold (\<lambda>tx l. l\<lparr>urgent := priceHeap_push tx (urgent l)\<rparr>) ts l1"
    have l2: "l' = ?l2" "dropped = []" "\<not> ok" using True assms(2) l1(1) by (auto simp: Discard_def)
    have "live all (urgent ?l2) = live all (urgent l1) + mset ts"
      using live_all_remote[OF l1(3)] fold_push_ok[OF l1(2), of ts] by blast
    moreover have "priced_ok ?l2" "floating ?l2 = floating l1" using fold_push_ok[OF l1(2), of ts] by auto
    ultimately show ?thesis using l2 l1(4) True by (simp add: add.commute add.left_commute)
  next
    case False
    then have "l' = l1" "dropped = ts" "ok" using assms(2) l1(1) by (auto simp: Discard_def)
    then show ?thesis using l1 False by auto
  qed
qed

text \<open>
  C13. \<open>Discard\<close> always returns. On success the dropped transactions are remote, they leave the heaps
  and nothing else that is live does, and they free the slots asked for unless the heaps ran
  empty, which needs force. Without success the heaps hold the same live transactions as before.
\<close>

theorem Discard_frees_slots:
  assumes "priced_ok l" "Discard all slots force l = (l', dropped, ok)"
  shows "priced_ok l' \<and> (\<forall>t\<in>set dropped. remote all t) \<and>
     live all (urgent l') + live all (floating l') + mset dropped = live all (urgent l) + live all (floating l) \<and>
     (ok \<longrightarrow> slots \<le> slots_of_txs dropped \<or> force \<and> plist (urgent l') = [] \<and> plist (floating l') = []) \<and>
     (\<not> ok \<longrightarrow> dropped = [] \<and> \<not> force)"
  using Discard_ok[OF assms] by blast

theorem Discard_frees_slots_witness:
  "case Discard sample_all 1 True sample_priced of (l', dropped, ok) \<Rightarrow>
     live sample_all (urgent l') + live sample_all (floating l') + mset dropped = {#sample_at 5 0#} \<and> ok"
  using Discard_frees_slots[OF sample_priced_ok(1), of sample_all 1 True]
  by (cases "Discard sample_all 1 True sample_priced") (auto simp: sample_priced_ok)


subsection \<open>The lookup holds each transaction once\<close>

definition lookup_txs :: "lookup \<Rightarrow> Transaction list" where
  "lookup_txs t = map snd (lk_locals t @ lk_remotes t)"

definition lk_wf :: "lookup \<Rightarrow> bool" where
  "lk_wf t \<longleftrightarrow> gm_wf (lk_locals t) \<and> gm_wf (lk_remotes t) \<and>
     fst ` set (lk_locals t) \<inter> fst ` set (lk_remotes t) = {} \<and>
     (\<forall>p\<in>set (lk_locals t @ lk_remotes t). tx_hash (snd p) = fst p) \<and>
     lk_slots t = slots_of_txs (lookup_txs t)"

lemma lk_wf_new [wf_intros]: "lk_wf newLookup"
  by (simp add: lk_wf_def newLookup_def slots_of_txs_def lookup_txs_def)

lemma slots_of_txs_simps [simp]: "slots_of_txs [] = 0" "slots_of_txs (t # ts) = numSlots t + slots_of_txs ts"
  "slots_of_txs (ts @ us) = slots_of_txs ts + slots_of_txs us"
  by (simp_all add: slots_of_txs_def)

lemma slots_of_txs_mset: "mset ts = mset us \<Longrightarrow> slots_of_txs ts = slots_of_txs us"
  unfolding slots_of_txs_def by (metis mset_map sum_mset_sum_list)

lemma lookup_Get_all: "lookup_Get t h = map_of (lk_locals t @ lk_remotes t) h"
  by (simp add: lookup_Get_def map_add_def)

lemma lookup_Get_iff:
  assumes "lk_wf t"
  shows "lookup_Get t h = Some tx \<longleftrightarrow> tx \<in> set (lookup_txs t) \<and> tx_hash tx = h"
proof -
  have wf: "gm_wf (lk_locals t @ lk_remotes t)" and hash: "\<forall>p\<in>set (lk_locals t @ lk_remotes t). tx_hash (snd p) = fst p"
    using assms by (simp_all add: lk_wf_def)
  have "lookup_Get t h = Some tx \<longleftrightarrow> (h, tx) \<in> set (lk_locals t @ lk_remotes t)"
    unfolding lookup_Get_all by (rule map_of_eq_Some_iff[OF wf])
  also have "\<dots> \<longleftrightarrow> tx \<in> snd ` set (lk_locals t @ lk_remotes t) \<and> tx_hash tx = h"
  proof
    assume "tx \<in> snd ` set (lk_locals t @ lk_remotes t) \<and> tx_hash tx = h"
    then obtain p where "p \<in> set (lk_locals t @ lk_remotes t)" "snd p = tx" "tx_hash tx = h" by blast
    with hash show "(h, tx) \<in> set (lk_locals t @ lk_remotes t)" by (metis prod.collapse)
  next
    assume a: "(h, tx) \<in> set (lk_locals t @ lk_remotes t)"
    then show "tx \<in> snd ` set (lk_locals t @ lk_remotes t) \<and> tx_hash tx = h"
      using bspec[OF hash a] imageI[OF a, of snd] by simp
  qed
  finally show ?thesis by (simp only: lookup_txs_def set_map)
qed

lemma gm_del_mset:
  assumes "gm_wf m" "map_of m k = Some v"
  shows "add_mset v (mset (map snd (gm_del k m))) = mset (map snd m)"
proof -
  obtain xs ys where m: "m = xs @ (k, v) # ys" using assms(2) by (meson map_of_SomeD split_list)
  then have "k \<notin> fst ` set xs" "k \<notin> fst ` set ys" using assms(1) by auto
  then have "filter (\<lambda>(k', _). k \<noteq> k') xs = xs" "filter (\<lambda>(k', _). k \<noteq> k') ys = ys"
    by (force simp: filter_id_conv)+
  then show ?thesis by (simp add: m AList.delete_eq)
qed

lemma lookup_Add_ok:
  assumes "lk_wf t" "lookup_Get t (tx_hash tx) = None"
  shows "lk_wf (lookup_Add tx local t)"
    "lookup_Get (lookup_Add tx local t) = (lookup_Get t)(tx_hash tx \<mapsto> tx)"
    "mset (lookup_txs (lookup_Add tx local t)) = add_mset tx (mset (lookup_txs t))"
proof -
  have none: "map_of (lk_locals t) (tx_hash tx) = None" "map_of (lk_remotes t) (tx_hash tx) = None"
    using assms(2) by (simp_all add: lookup_Get_def split: option.splits)
  then have keys: "tx_hash tx \<notin> fst ` set (lk_locals t)" "tx_hash tx \<notin> fst ` set (lk_remotes t)"
    by (simp_all add: map_of_eq_None_iff)
  show ms: "mset (lookup_txs (lookup_Add tx local t)) = add_mset tx (mset (lookup_txs t))"
    using none by (simp add: lookup_Add_def lookup_txs_def gm_put_new Let_def)
  show "lookup_Get (lookup_Add tx local t) = (lookup_Get t)(tx_hash tx \<mapsto> tx)"
    using none by (auto simp: fun_eq_iff lookup_Add_def lookup_Get_def gomap_simps Let_def split: option.split)
  have "slots_of_txs (lookup_txs (lookup_Add tx local t)) = numSlots tx + slots_of_txs (lookup_txs t)"
    using slots_of_txs_mset[of "lookup_txs (lookup_Add tx local t)" "tx # lookup_txs t"] ms by simp
  then show "lk_wf (lookup_Add tx local t)"
    using assms(1) none keys by (auto simp: lk_wf_def lookup_Add_def Let_def gm_put_new)
qed

lemma lookup_Remove_ok:
  assumes "lk_wf t" "lookup_Get t h = Some tx"
  shows "lk_wf (lookup_Remove h t)" "lookup_Get (lookup_Remove h t) = (lookup_Get t)(h := None)"
    "add_mset tx (mset (lookup_txs (lookup_Remove h t))) = mset (lookup_txs t)"
proof -
  have r: "lookup_Remove h t = t\<lparr>lk_slots := lk_slots t - numSlots tx, lk_locals := gm_del h (lk_locals t),
      lk_remotes := gm_del h (lk_remotes t)\<rparr>" using assms(2) by (simp add: lookup_Remove_def)
  have wf: "gm_wf (lk_locals t)" "gm_wf (lk_remotes t)" "fst ` set (lk_locals t) \<inter> fst ` set (lk_remotes t) = {}"
    using assms(1) by (simp_all add: lk_wf_def)
  show "lookup_Get (lookup_Remove h t) = (lookup_Get t)(h := None)"
    by (auto simp: r fun_eq_iff lookup_Get_def gomap_simps split: option.split)
  show ms: "add_mset tx (mset (lookup_txs (lookup_Remove h t))) = mset (lookup_txs t)"
  proof (cases "map_of (lk_locals t) h")
    case None
    then have "map_of (lk_remotes t) h = Some tx" using assms(2) by (simp add: lookup_Get_def)
    with None gm_del_mset[OF wf(2) this] gm_del_absent[OF None] show ?thesis by (simp add: r lookup_txs_def)
  next
    case (Some tx')
    then have "tx' = tx" using assms(2) by (simp add: lookup_Get_def)
    have "h \<in> fst ` set (lk_locals t)" using Some by (force dest: map_of_SomeD)
    then have "map_of (lk_remotes t) h = None" using wf(3) by (auto simp: map_of_eq_None_iff)
    with Some gm_del_mset[OF wf(1) Some] gm_del_absent[OF this] \<open>tx' = tx\<close> show ?thesis
      by (simp add: r lookup_txs_def)
  qed
  have "numSlots tx + slots_of_txs (lookup_txs (lookup_Remove h t)) = slots_of_txs (lookup_txs t)"
    using slots_of_txs_mset[of "tx # lookup_txs (lookup_Remove h t)" "lookup_txs t"] ms by simp
  then show "lk_wf (lookup_Remove h t)"
    using assms(1) wf by (auto simp: lk_wf_def r set_gm_del intro: gm_wf_del)
qed

end
