(* ===== verification/Validation.thy ===== *)
theory Validation
  imports TxList
begin

unbundle bit_operations_syntax

text \<open>
  The checks a pool makes before it takes a transaction, \<^verbatim>\<open>core/txpool/validation.go\<close>. The address
  behind a signature is the parameter \<open>sender\<close>; the account state is read through the two functions
  \<open>GetNonce\<close> and \<open>GetBalance\<close>. The callbacks of \<open>ValidationOptionsWithState\<close> are arguments;
  \<open>FirstNonceGap\<close> is optional.
\<close>

datatype val_error = TxError tx_error | ErrOversizedData | ErrNegativeValue | ErrGasLimit | ErrInvalidSender
  | ErrUnderpriced

record ValidationOptions =
  Accept :: u8
  MaxSize :: u64
  MinTip :: int

definition MaxInitCodeSize :: nat where "MaxInitCodeSize = 2 * 24576"

text \<open>\<open>big.Int.BitLen\<close>: the length of the absolute value in bits.\<close>

fun bits :: "nat \<Rightarrow> nat" where
  "bits n = (if n = 0 then 0 else Suc (bits (n div 2)))"

declare bits.simps [simp del]

definition BitLen :: "int \<Rightarrow> nat" where
  "BitLen x = bits (nat \<bar>x\<bar>)"

definition ValidateTransaction ::
  "(Transaction \<Rightarrow> address option) \<Rightarrow> u64 \<Rightarrow> ValidationOptions \<Rightarrow> Transaction \<Rightarrow> val_error option" where
  "ValidateTransaction sender headGasLimit opts tx =
     (if Accept opts AND push_bit (unat (Type tx)) 1 = 0 then Some (TxError ErrTxTypeNotSupported)
      else if tx_size tx > MaxSize opts then Some ErrOversizedData
      else if Type tx \<noteq> PanguTxType then Some (TxError ErrTxTypeNotSupported)
      else if To tx = None \<and> length (Data tx) > MaxInitCodeSize then Some (TxError ErrMaxInitCodeSizeExceeded)
      else if Value tx < 0 then Some ErrNegativeValue
      else if headGasLimit < GasLimit tx then Some ErrGasLimit
      else if BitLen (GasFeeCap tx) > 256 then Some (TxError ErrFeeCapVeryHigh)
      else if BitLen (GasTipCap tx) > 256 then Some (TxError ErrTipVeryHigh)
      else if GasFeeCapIntCmp tx (GasTipCap tx) < 0 then Some (TxError ErrTipAboveFeeCap)
      else if sender tx = None then Some ErrInvalidSender
      else case tx_IntrinsicGas tx of
             Inl err \<Rightarrow> Some (TxError err)
           | Inr intrGas \<Rightarrow>
               if GasLimit tx < intrGas then Some (TxError ErrIntrinsicGas)
               else if GasTipCapIntCmp tx (MinTip opts) < 0 then Some ErrUnderpriced
               else None)"

definition ValidateTransactionWithState ::
  "(Transaction \<Rightarrow> address option) \<Rightarrow> (address \<Rightarrow> u64) \<Rightarrow> (address \<Rightarrow> int) \<Rightarrow> (address \<Rightarrow> u64) option \<Rightarrow>
   (address \<Rightarrow> int) \<Rightarrow> (address \<Rightarrow> u64 \<Rightarrow> int option) \<Rightarrow> Transaction \<Rightarrow> val_error option" where
  "ValidateTransactionWithState sender GetNonce GetBalance FirstNonceGap ExistingExpenditure ExistingCost tx =
     (case sender tx of
        None \<Rightarrow> Some ErrInvalidSender
      | Some from \<Rightarrow>
          if GetNonce from > Nonce tx then Some (TxError ErrNonceTooLow)
          else if (case FirstNonceGap of None \<Rightarrow> False | Some gap \<Rightarrow> gap from < Nonce tx)
          then Some (TxError ErrNonceTooHigh)
          else let balance = GetBalance from; cost = Cost tx
               in if big_cmp balance cost < 0 then Some (TxError ErrInsufficientFunds)
                  else let spent = ExistingExpenditure from
                       in (case ExistingCost from (Nonce tx) of
                             Some prev \<Rightarrow>
                               (let bump = cost - prev; need = spent + bump
                                in if big_cmp balance need < 0 then Some (TxError ErrInsufficientFunds) else None)
                           | None \<Rightarrow>
                               (let need = spent + cost
                                in if big_cmp balance need < 0 then Some (TxError ErrInsufficientFunds) else None)))"

lemma bits_gt: "k < bits n \<longleftrightarrow> 2 ^ k \<le> n"
proof (induction n arbitrary: k rule: bits.induct)
  case (1 n)
  show ?case
  proof (cases "n = 0")
    case True
    then show ?thesis by (simp add: bits.simps[of 0])
  next
    case False
    show ?thesis
    proof (cases k)
      case 0
      then show ?thesis using False by (simp add: bits.simps[of n])
    next
      case (Suc j)
      have "2 ^ Suc j \<le> n \<longleftrightarrow> 2 ^ j \<le> n div 2" by auto
      then show ?thesis using "1.IH"[OF False, of j] False Suc by (simp add: bits.simps[of n])
    qed
  qed
qed

lemma BitLen_le: "BitLen x \<le> k \<longleftrightarrow> \<bar>x\<bar> < 2 ^ k"
proof -
  have "nat \<bar>x\<bar> < 2 ^ k \<longleftrightarrow> \<bar>x\<bar> < 2 ^ k" by (simp add: nat_less_iff)
  then show ?thesis using bits_gt[of k "nat \<bar>x\<bar>"] by (auto simp: BitLen_def not_le[symmetric])
qed

lemma ValidateTransaction_None:
  assumes "length (Data tx) < 2 ^ 64" "Accept opts = 2"
  shows "ValidateTransaction sender headGasLimit opts tx = None \<longleftrightarrow>
     tx_size tx \<le> MaxSize opts \<and> (To tx = None \<longrightarrow> length (Data tx) \<le> 49152) \<and> 0 \<le> Value tx \<and>
     GasLimit tx \<le> headGasLimit \<and> \<bar>GasFeeCap tx\<bar> < 2 ^ 256 \<and> \<bar>GasTipCap tx\<bar> < 2 ^ 256 \<and>
     MinTip opts \<le> GasTipCap tx \<and> GasTipCap tx \<le> GasFeeCap tx \<and> sender tx \<noteq> None \<and>
     data_gas_spec 21000 16 (To tx = None) (Data tx) < 2 ^ 64 \<and>
     word_of_int (data_gas_spec 21000 16 (To tx = None) (Data tx) + access_gas_spec (TxAccessList tx)) \<le> GasLimit tx"
proof -
  have "Accept opts AND push_bit (unat (Type tx)) 1 \<noteq> 0"
    by (simp add: assms(2) Type_def PanguTxType_def)
  moreover have "Type tx = PanguTxType" by (simp add: Type_def)
  moreover have "\<bar>x\<bar> < 2 ^ 256 \<longleftrightarrow> \<not> 256 < BitLen x" for x by (simp only: BitLen_le[symmetric] not_less)
  note b = this[of "GasFeeCap tx"] this[of "GasTipCap tx"]
  ultimately show ?thesis
    unfolding ValidateTransaction_def tx_IntrinsicGas_exact[OF assms(1)] b
    by (auto simp: MaxInitCodeSize_def GasFeeCapIntCmp_def GasTipCapIntCmp_def Let_def linorder_not_le[symmetric])
qed

text \<open>
  C18. A transaction that passes \<open>ValidateTransaction\<close> of the pool carries a non-negative value, fee cap
  and tip below \<open>2 ^ 256\<close> with the tip not above the fee cap and not below the pool's minimum, a
  recoverable sender, a gas limit within the block's and at least the intrinsic gas of its data
  and access list; and every transaction with these properties and a permitted size passes.
\<close>

theorem ValidateTransaction_accepts_iff:
  assumes "length (Data tx) < 2 ^ 64" "Accept opts = 2"
  shows "ValidateTransaction sender headGasLimit opts tx = None \<longleftrightarrow>
     tx_size tx \<le> MaxSize opts \<and> (To tx = None \<longrightarrow> length (Data tx) \<le> 49152) \<and> 0 \<le> Value tx \<and>
     GasLimit tx \<le> headGasLimit \<and> \<bar>GasFeeCap tx\<bar> < 2 ^ 256 \<and> \<bar>GasTipCap tx\<bar> < 2 ^ 256 \<and>
     MinTip opts \<le> GasTipCap tx \<and> GasTipCap tx \<le> GasFeeCap tx \<and> sender tx \<noteq> None \<and>
     data_gas_spec 21000 16 (To tx = None) (Data tx) < 2 ^ 64 \<and>
     word_of_int (data_gas_spec 21000 16 (To tx = None) (Data tx) + access_gas_spec (TxAccessList tx)) \<le> GasLimit tx"
  using ValidateTransaction_None[OF assms] .

theorem ValidateTransaction_accepts_iff_witness:
  "ValidateTransaction (\<lambda>_. Some 7) 100000 \<lparr>Accept = 2, MaxSize = 131072, MinTip = 1\<rparr> sample_tx = None"
  using ValidateTransaction_accepts_iff[of sample_tx "\<lparr>Accept = 2, MaxSize = 131072, MinTip = 1\<rparr>" "\<lambda>_. Some 7" 100000]
  by (simp add: sample_tx_def Data_def To_def Value_def GasLimit_def GasFeeCap_def GasTipCap_def TxAccessList_def
      data_gas_spec_def access_gas_spec_def nonzero_bytes_def Len_def StorageKeys_def NewAccessList_def)

lemma total_cost_with:
  assumes "by_nonce xs"
  shows "total_cost (ins_tx tx xs) = total_cost xs + (case at_nonce (Nonce tx) xs of
     None \<Rightarrow> Cost tx | Some prev \<Rightarrow> Cost tx - Cost prev)"
  by (simp add: total_cost_ins[OF assms] split: option.split)



end
