(* ===== verification/BlockTypes.thy ===== *)
theory BlockTypes
  imports Validation
begin

text \<open>
  Block headers and blocks, \<^verbatim>\<open>core/types/block.go\<close>. Pointers to headers and bodies are values, so a
  deep copy is the value itself; the block number is set in every header that reaches this code.
  The hash of a header is the parameter \<open>rlpHash\<close>, and its cached copy in the block is left out.
\<close>

record Header =
  ParentHash :: hash
  hTime :: u64
  Number :: int
  Coinbase :: address
  StateRoot :: hash
  TxRoot :: hash
  ReceiptRoot :: hash
  hBloom :: "2048 word"
  hBaseFee :: "int option"
  hGasLimit :: u64
  hGasUsed :: u64
  Extra :: "u8 list"

definition header_SanityCheck :: "Header \<Rightarrow> bool" where
  "header_SanityCheck h =
     (if \<not> (0 \<le> Number h \<and> BitLen (Number h) \<le> 64) then False
      else if length (Extra h) > 100 * 1024 then False
      else case hBaseFee h of None \<Rightarrow> True | Some bf \<Rightarrow> \<not> BitLen bf > 256)"

record Block =
  header :: Header
  groups :: "Transaction list list"

definition SetTransactions :: "Transaction list list \<Rightarrow> Block \<Rightarrow> Block" where
  "SetTransactions ts b = b\<lparr>groups := ts\<rparr>"

definition InitBlock :: "Header \<Rightarrow> Transaction list list \<Rightarrow> Block" where
  "InitBlock h ts = SetTransactions ts \<lparr>header = h, groups = []\<rparr>"

definition Transactions :: "Block \<Rightarrow> Transaction list" where
  "Transactions b = fold (\<lambda>ts ret. fold (\<lambda>tx ret. ret @ [tx]) ts ret) (groups b) []"

fun find_tx :: "hash \<Rightarrow> Transaction list \<Rightarrow> Transaction option" where
  "find_tx h [] = None"
| "find_tx h (tx # ts) = (if tx_hash tx = h then Some tx else find_tx h ts)"

fun find_group :: "hash \<Rightarrow> Transaction list list \<Rightarrow> Transaction option" where
  "find_group h [] = None"
| "find_group h (ts # gs) = (case find_tx h ts of Some tx \<Rightarrow> Some tx | None \<Rightarrow> find_group h gs)"

definition block_Transaction :: "Block \<Rightarrow> hash \<Rightarrow> Transaction option" where
  "block_Transaction b h = find_group h (groups b)"

text \<open>\<open>big.Int.Uint64\<close> reads the low 64 bits of the absolute value.\<close>

definition NumberU64 :: "Block \<Rightarrow> u64" where
  "NumberU64 b = word_of_int \<bar>Number (header b)\<bar>"

definition block_ParentHash :: "Block \<Rightarrow> hash" where
  "block_ParentHash b = ParentHash (header b)"

lemma append_each: "fold (\<lambda>tx ret. ret @ [tx]) ts ret = ret @ ts"
  by (induction ts arbitrary: ret) auto

lemma Transactions_concat: "Transactions b = concat (groups b)"
proof -
  have "fold (\<lambda>ts ret. ret @ ts) gs r = r @ concat gs" for gs and r :: "Transaction list"
    by (induction gs arbitrary: r) auto
  then show ?thesis by (simp add: Transactions_def append_each)
qed

lemma find_tx_find: "find_tx h ts = find (\<lambda>tx. tx_hash tx = h) ts"
  by (induction ts) auto

text \<open>
  Looking up a transaction of a block by hash finds the first transaction of the flattened block with
  that hash, and fails only when the block has none.
\<close>

lemma block_Transaction_flat:
  "block_Transaction b h = find (\<lambda>tx. tx_hash tx = h) (Transactions b)"
proof -
  have split: "find P (xs @ ys) = (case find P xs of Some x \<Rightarrow> Some x | None \<Rightarrow> find P ys)" for P and xs ys :: "Transaction list"
    by (induction xs) auto
  have "find_group h gs = find (\<lambda>tx. tx_hash tx = h) (concat gs)" for gs
    by (induction gs) (auto simp: split find_tx_find split: option.split)
  then show ?thesis by (simp add: block_Transaction_def Transactions_concat)
qed

end
