(* ===== verification/LegacyPool.thy ===== *)
theory LegacyPool
  imports PricedList BlockTypes
begin

text \<open>
  The transaction pool, \<^verbatim>\<open>core/txpool/legacypool/legacypool.go\<close>. The state of the pool is one record;
  the head block enters through its gas limit and base fee, the state at the head through the
  readers \<open>st_nonce\<close> and \<open>st_balance\<close>, the sender of a transaction through the parameter \<open>sender\<close> and the
  time through \<open>now\<close>. Locks, metrics, logging, the event feed and the disk journal are left out.
  A panic of the list and heap operations below is \<open>None\<close>.
\<close>

record Config =
  NoLocals :: bool
  PriceLimit :: u64
  PriceBump :: u64
  AccountSlots :: u64
  GlobalSlots :: u64
  AccountQueue :: u64
  GlobalQueue :: u64
  Lifetime :: int

definition DefaultConfig :: Config where
  "DefaultConfig = \<lparr>NoLocals = False, PriceLimit = 1, PriceBump = 10, AccountSlots = 16, GlobalSlots = 4096 + 1024,
     AccountQueue = 64, GlobalQueue = 1024, Lifetime = 3 * 3600 * 10 ^ 9\<rparr>"

definition sanitize :: "Config \<Rightarrow> Config" where
  "sanitize config =
     (let conf = config;
          conf = (if PriceLimit conf < 1 then conf\<lparr>PriceLimit := PriceLimit DefaultConfig\<rparr> else conf);
          conf = (if PriceBump conf < 1 then conf\<lparr>PriceBump := PriceBump DefaultConfig\<rparr> else conf);
          conf = (if AccountSlots conf < 1 then conf\<lparr>AccountSlots := AccountSlots DefaultConfig\<rparr> else conf);
          conf = (if GlobalSlots conf < 1 then conf\<lparr>GlobalSlots := GlobalSlots DefaultConfig\<rparr> else conf);
          conf = (if AccountQueue conf < 1 then conf\<lparr>AccountQueue := AccountQueue DefaultConfig\<rparr> else conf);
          conf = (if GlobalQueue conf < 1 then conf\<lparr>GlobalQueue := GlobalQueue DefaultConfig\<rparr> else conf)
      in if Lifetime conf < 1 then conf\<lparr>Lifetime := Lifetime DefaultConfig\<rparr> else conf)"

record LegacyPool =
  config :: Config
  gasTip :: int
  currentHead :: Header
  st_nonce :: "address \<Rightarrow> u64"
  st_balance :: "address \<Rightarrow> int"
  pendingNonces :: noncer
  locals :: accountSet
  pending :: "(address, txlist) gomap"
  queue :: "(address, txlist) gomap"
  beats :: "(address, int) gomap"
  all :: lookup
  priced :: pricedList
  changesSinceReorg :: int

type_synonym senderf = "Transaction \<Rightarrow> address option"

text \<open>\<open>from, _ := types.Sender(signer, tx)\<close>: the zero address when the sender cannot be derived.\<close>

definition from_of :: "senderf \<Rightarrow> Transaction \<Rightarrow> address" where
  "from_of sender tx = (case sender tx of None \<Rightarrow> 0 | Some a \<Rightarrow> a)"

datatype pool_error = ErrAlreadyKnown | ErrTxPoolOverflow | ErrFutureReplacePending | ErrReplaceUnderpriced
  | Invalid val_error

text \<open>
  The head and the state readers are nil until \<open>Init\<close> stores those of the first head; the arguments
  \<open>head\<close>, \<open>nonce0\<close> and \<open>balance0\<close> stand for them.
\<close>

definition New :: "Config \<Rightarrow> address list \<Rightarrow> Header \<Rightarrow> (address \<Rightarrow> u64) \<Rightarrow> (address \<Rightarrow> int) \<Rightarrow> LegacyPool" where
  "New cfg localAddrs head nonce0 balance0 =
     \<lparr>config = sanitize cfg, gasTip = 0, currentHead = head, st_nonce = nonce0, st_balance = balance0,
      pendingNonces = newNoncer nonce0, locals = fold as_add localAddrs (newAccountSet []),
      pending = [], queue = [], beats = [], all = newLookup, priced = newPricedList, changesSinceReorg = 0\<rparr>"

definition Filter :: "Transaction \<Rightarrow> bool" where
  "Filter tx = (Type tx = PanguTxType)"

subsection \<open>Validation\<close>

definition txMaxSize :: u64 where "txMaxSize = 4 * txSlotSize"

definition validateTxBasics :: "senderf \<Rightarrow> Transaction \<Rightarrow> bool \<Rightarrow> LegacyPool \<Rightarrow> val_error option" where
  "validateTxBasics sender tx local pool =
     (let opts = \<lparr>Accept = 0 OR push_bit (unat PanguTxType) 1, MaxSize = txMaxSize, MinTip = gasTip pool\<rparr>;
          opts = (if local then opts\<lparr>MinTip := 0\<rparr> else opts)
      in ValidateTransaction sender (hGasLimit (currentHead pool)) opts tx)"

definition validateTx :: "senderf \<Rightarrow> Transaction \<Rightarrow> LegacyPool \<Rightarrow> val_error option" where
  "validateTx sender tx pool =
     ValidateTransactionWithState sender (st_nonce pool) (st_balance pool) None
       (\<lambda>addr. case map_of (pending pool) addr of Some l \<Rightarrow> totalcost l | None \<Rightarrow> 0)
       (\<lambda>addr nonce. case map_of (pending pool) addr of
                       Some l \<Rightarrow> map_option Cost (sortedMap_Get (txs l) nonce) | None \<Rightarrow> None) tx"

subsection \<open>Moving transactions between the lists\<close>

definition drop_priced :: "nat \<Rightarrow> LegacyPool \<Rightarrow> LegacyPool option" where
  "drop_priced n pool = do { p \<leftarrow> priced_Removed (all pool) n (priced pool); Some (pool\<lparr>priced := p\<rparr>) }"

definition enqueueTx :: "senderf \<Rightarrow> int \<Rightarrow> Transaction \<Rightarrow> bool \<Rightarrow> bool \<Rightarrow> LegacyPool \<Rightarrow> (LegacyPool \<times> (pool_error + bool)) option" where
  "enqueueTx sender now tx local addAll pool =
     (let from = from_of sender tx;
          pool = (if map_of (queue pool) from = None then pool\<lparr>queue := gm_put from (newList False) (queue pool)\<rparr> else pool);
          (l, inserted, old) = list_Add tx (PriceBump (config pool)) (the (map_of (queue pool) from));
          pool = pool\<lparr>queue := gm_put from l (queue pool)\<rparr>
      in if \<not> inserted then Some (pool, Inl ErrReplaceUnderpriced)
         else do {
           pool \<leftarrow> (case old of
                      Some o' \<Rightarrow> drop_priced 1 (pool\<lparr>all := lookup_Remove (tx_hash o') (all pool)\<rparr>)
                    | None \<Rightarrow> Some pool);
           let pool = (if addAll then pool\<lparr>all := lookup_Add tx local (all pool), priced := priced_Put tx local (priced pool)\<rparr>
                       else pool);
           let pool = (if map_of (beats pool) from = None then pool\<lparr>beats := gm_put from now (beats pool)\<rparr> else pool);
           Some (pool, Inr (old \<noteq> None)) })"

definition promoteTx :: "int \<Rightarrow> address \<Rightarrow> Transaction \<Rightarrow> LegacyPool \<Rightarrow> (LegacyPool \<times> bool) option" where
  "promoteTx now addr tx pool =
     (let pool = (if map_of (pending pool) addr = None then pool\<lparr>pending := gm_put addr (newList True) (pending pool)\<rparr> else pool);
          (l, inserted, old) = list_Add tx (PriceBump (config pool)) (the (map_of (pending pool) addr));
          pool = pool\<lparr>pending := gm_put addr l (pending pool)\<rparr>
      in if \<not> inserted then
           do { pool \<leftarrow> drop_priced 1 (pool\<lparr>all := lookup_Remove (tx_hash tx) (all pool)\<rparr>); Some (pool, False) }
         else do {
           pool \<leftarrow> (case old of
                      Some o' \<Rightarrow> drop_priced 1 (pool\<lparr>all := lookup_Remove (tx_hash o') (all pool)\<rparr>)
                    | None \<Rightarrow> Some pool);
           Some (pool\<lparr>pendingNonces := noncer_set addr (Nonce tx + 1) (pendingNonces pool),
                     beats := gm_put addr now (beats pool)\<rparr>, True) })"

text \<open>The invalidated transactions go back to the queue; the result of \<open>enqueueTx\<close> is ignored.\<close>

fun enqueue_all :: "senderf \<Rightarrow> int \<Rightarrow> Transaction list \<Rightarrow> LegacyPool \<Rightarrow> LegacyPool option" where
  "enqueue_all sender now [] pool = Some pool"
| "enqueue_all sender now (tx # ts) pool =
     do { (pool, _) \<leftarrow> enqueueTx sender now tx False False pool; enqueue_all sender now ts pool }"

definition removeTx :: "senderf \<Rightarrow> int \<Rightarrow> hash \<Rightarrow> bool \<Rightarrow> LegacyPool \<Rightarrow> (LegacyPool \<times> int) option" where
  "removeTx sender now h outofbound pool =
     (case lookup_Get (all pool) h of
        None \<Rightarrow> Some (pool, 0)
      | Some tx \<Rightarrow>
          let addr = from_of sender tx in do {
            let pool = pool\<lparr>all := lookup_Remove h (all pool)\<rparr>;
            pool \<leftarrow> (if outofbound then drop_priced 1 pool else Some pool);
            let future = (\<lambda>pool.
              (case map_of (queue pool) addr of
                 None \<Rightarrow> Some (pool, 0)
               | Some l \<Rightarrow>
                   let (l, removed, _) = list_Remove tx l;
                       pool = pool\<lparr>queue := gm_put addr l (queue pool)\<rparr>
                   in Some (if list_Empty l
                            then pool\<lparr>queue := gm_del addr (queue pool), beats := gm_del addr (beats pool)\<rparr>
                            else pool, 0)));
            case map_of (pending pool) addr of
              None \<Rightarrow> future pool
            | Some l \<Rightarrow>
                let (l, removed, invalids) = list_Remove tx l;
                    pool = pool\<lparr>pending := gm_put addr l (pending pool)\<rparr>
                in if removed then do {
                     let pool = (if list_Empty l then pool\<lparr>pending := gm_del addr (pending pool)\<rparr> else pool);
                     pool \<leftarrow> enqueue_all sender now invalids pool;
                     Some (pool\<lparr>pendingNonces := noncer_setIfLower addr (Nonce tx) (pendingNonces pool)\<rparr>,
                           1 + int (length invalids)) }
                   else future pool })"

text \<open>\<open>isGapped\<close> reads the pending nonce, which may load it into the noncer.\<close>

function gap_loop :: "txlist \<Rightarrow> u64 \<Rightarrow> u64 \<Rightarrow> bool" where
  "gap_loop q nonce bound = (if nonce < bound then if \<not> list_Contains q nonce then True else gap_loop q (nonce + 1) bound else False)"
  by pat_completeness auto
termination
proof (relation "measure (\<lambda>(_, nonce, bound). unat bound - unat nonce)", goal_cases)
  case (2 q nonce bound)
  then show ?case using unat_inc[of nonce bound] by (simp add: word_less_nat_alt)
qed simp

declare gap_loop.simps [simp del]

definition isGapped :: "address \<Rightarrow> Transaction \<Rightarrow> LegacyPool \<Rightarrow> LegacyPool \<times> bool" where
  "isGapped from tx pool =
     (let (n, next) = noncer_get from (pendingNonces pool);
          pool = pool\<lparr>pendingNonces := n\<rparr>
      in (pool, if Nonce tx \<le> next then False
                else case map_of (queue pool) from of None \<Rightarrow> True | Some q \<Rightarrow> gap_loop q next (Nonce tx)))"

fun remove_drops :: "senderf \<Rightarrow> int \<Rightarrow> Transaction list \<Rightarrow> LegacyPool \<Rightarrow> LegacyPool option" where
  "remove_drops sender now [] pool = Some pool"
| "remove_drops sender now (tx # ts) pool =
     do { (pool, dropped) \<leftarrow> removeTx sender now (tx_hash tx) False pool;
          remove_drops sender now ts (pool\<lparr>changesSinceReorg := changesSinceReorg pool + dropped\<rparr>) }"

text \<open>Making room in a full pool: the part of \<open>add\<close> between validation and insertion.\<close>

definition make_room :: "senderf \<Rightarrow> int \<Rightarrow> address \<Rightarrow> Transaction \<Rightarrow> bool \<Rightarrow> LegacyPool \<Rightarrow> (LegacyPool \<times> pool_error option) option" where
  "make_room sender now from tx isLocal pool =
     (let (under, p) = (if isLocal then (False, priced pool) else Underpriced (all pool) tx (priced pool));
          pool = pool\<lparr>priced := p\<rparr>
      in if \<not> isLocal \<and> under then Some (pool, Some (Invalid ErrUnderpriced))
         else if changesSinceReorg pool > uint (GlobalSlots (config pool) div 4) then Some (pool, Some ErrTxPoolOverflow)
         else let (p, drop, success) =
                    Discard (all pool) (lookup_Slots (all pool) - sint (GlobalSlots (config pool) + GlobalQueue (config pool)) + numSlots tx)
                      isLocal (priced pool);
                  pool = pool\<lparr>priced := p\<rparr>
              in if \<not> isLocal \<and> \<not> success then Some (pool, Some ErrTxPoolOverflow)
                 else let (pool, gapped) = (if isLocal then (pool, False) else isGapped from tx pool);
                          replacesPending = (gapped \<and> list_ex (\<lambda>dropTx.
                            case map_of (pending pool) (from_of sender dropTx) of
                              None \<Rightarrow> False | Some l \<Rightarrow> list_Contains l (Nonce dropTx)) drop)
                      in if replacesPending
                         then Some (pool\<lparr>priced := fold (\<lambda>dropTx p. priced_Put dropTx False p) drop (priced pool)\<rparr>,
                                    Some ErrFutureReplacePending)
                         else do { pool \<leftarrow> remove_drops sender now drop pool; Some (pool, None) })"

definition enqueue_new :: "senderf \<Rightarrow> int \<Rightarrow> Transaction \<Rightarrow> address \<Rightarrow> bool \<Rightarrow> bool \<Rightarrow> LegacyPool \<Rightarrow>
    (LegacyPool \<times> (pool_error + bool)) option" where
  "enqueue_new sender now tx from local isLocal pool = do {
     (pool, res) \<leftarrow> enqueueTx sender now tx isLocal True pool;
     case res of
       Inl err \<Rightarrow> Some (pool, Inl err)
     | Inr replaced \<Rightarrow>
         if local \<and> \<not> as_contains (locals pool) from then do {
           let pool = pool\<lparr>locals := as_add from (locals pool)\<rparr>;
           let (all', migrated) = lookup_RemoteToLocals sender (locals pool) (all pool);
           pool \<leftarrow> drop_priced migrated (pool\<lparr>all := all'\<rparr>);
           Some (pool, Inr replaced) }
         else Some (pool, Inr replaced) }"

text \<open>The replacement of a pending transaction with the same nonce.\<close>

definition replace_pending :: "int \<Rightarrow> Transaction \<Rightarrow> address \<Rightarrow> bool \<Rightarrow> txlist \<Rightarrow> LegacyPool \<Rightarrow>
    (LegacyPool \<times> (pool_error + bool)) option" where
  "replace_pending now tx from isLocal l pool =
     (let (l, inserted, old) = list_Add tx (PriceBump (config pool)) l;
          pool = pool\<lparr>pending := gm_put from l (pending pool)\<rparr>
      in if \<not> inserted then Some (pool, Inl ErrReplaceUnderpriced)
         else do {
           pool \<leftarrow> (case old of
                      Some o' \<Rightarrow> drop_priced 1 (pool\<lparr>all := lookup_Remove (tx_hash o') (all pool)\<rparr>)
                    | None \<Rightarrow> Some pool);
           Some (pool\<lparr>all := lookup_Add tx isLocal (all pool), priced := priced_Put tx isLocal (priced pool),
                     beats := gm_put from now (beats pool)\<rparr>, Inr (old \<noteq> None)) })"

definition add_tx :: "senderf \<Rightarrow> int \<Rightarrow> Transaction \<Rightarrow> bool \<Rightarrow> LegacyPool \<Rightarrow> (LegacyPool \<times> (pool_error + bool)) option" where
  "add_tx sender now tx local pool =
     (if lookup_Get (all pool) (tx_hash tx) \<noteq> None then Some (pool, Inl ErrAlreadyKnown)
      else let isLocal = (local \<or> as_containsTx sender (locals pool) tx)
      in case validateTx sender tx pool of Some err \<Rightarrow> Some (pool, Inl (Invalid err))
         | None \<Rightarrow>
           let from = from_of sender tx in do {
             (pool, err) \<leftarrow>
               (if word_of_int (lookup_Slots (all pool) + numSlots tx) > GlobalSlots (config pool) + GlobalQueue (config pool)
                then make_room sender now from tx isLocal pool else Some (pool, None));
             case err of
               Some e \<Rightarrow> Some (pool, Inl e)
             | None \<Rightarrow>
                 (case map_of (pending pool) from of
                    Some l \<Rightarrow>
                      if list_Contains l (Nonce tx) then replace_pending now tx from isLocal l pool
                      else enqueue_new sender now tx from local isLocal pool
                  | None \<Rightarrow> enqueue_new sender now tx from local isLocal pool) })"

text \<open>A batch, with the accounts whose queue got a new transaction.\<close>

fun addTxsLocked :: "senderf \<Rightarrow> int \<Rightarrow> Transaction list \<Rightarrow> bool \<Rightarrow> LegacyPool \<Rightarrow> accountSet \<Rightarrow>
    (LegacyPool \<times> pool_error option list \<times> accountSet) option" where
  "addTxsLocked sender now [] local pool dirty = Some (pool, [], dirty)"
| "addTxsLocked sender now (tx # ts) local pool dirty = do {
     (pool, res) \<leftarrow> add_tx sender now tx local pool;
     let (err, dirty) = (case res of Inl e \<Rightarrow> (Some e, dirty)
                         | Inr replaced \<Rightarrow> (None, if replaced then dirty else as_addTx sender tx dirty));
     (pool, errs, dirty) \<leftarrow> addTxsLocked sender now ts local pool dirty;
     Some (pool, err # errs, dirty) }"

definition pre_check :: "senderf \<Rightarrow> bool \<Rightarrow> LegacyPool \<Rightarrow> Transaction \<Rightarrow> pool_error option" where
  "pre_check sender local pool tx =
     (if lookup_Get (all pool) (tx_hash tx) \<noteq> None then Some ErrAlreadyKnown
      else map_option Invalid (validateTxBasics sender tx local pool))"

text \<open>The errors of the batch go into the slots the pre-check left empty, in order.\<close>

fun fill_slots :: "'e option list \<Rightarrow> 'e option list \<Rightarrow> 'e option list option" where
  "fill_slots errs [] = Some errs"
| "fill_slots [] (n # ns) = None"
| "fill_slots (Some e # es) (n # ns) = map_option ((#) (Some e)) (fill_slots es (n # ns))"
| "fill_slots (None # es) (n # ns) = map_option ((#) n) (fill_slots es ns)"

text \<open>\<open>None\<close> in place of the dirty set: nothing is left to add and no promotion is requested.\<close>

definition addTxs :: "senderf \<Rightarrow> int \<Rightarrow> Transaction list \<Rightarrow> bool \<Rightarrow> LegacyPool \<Rightarrow>
    (LegacyPool \<times> pool_error option list \<times> accountSet option) option" where
  "addTxs sender now ts local pool =
     (let errs = map (pre_check sender local pool) ts;
          news = filter (\<lambda>tx. pre_check sender local pool tx = None) ts
      in if news = [] then Some (pool, errs, None)
         else do {
           (pool, newErrs, dirty) \<leftarrow> addTxsLocked sender now news local pool (newAccountSet []);
           errs \<leftarrow> fill_slots errs newErrs;
           Some (pool, errs, Some dirty) })"

definition addLocals :: "senderf \<Rightarrow> int \<Rightarrow> Transaction list \<Rightarrow> LegacyPool \<Rightarrow>
    (LegacyPool \<times> pool_error option list \<times> accountSet option) option" where
  "addLocals sender now ts pool = addTxs sender now ts (\<not> NoLocals (config pool)) pool"

definition addRemotes :: "senderf \<Rightarrow> int \<Rightarrow> Transaction list \<Rightarrow> LegacyPool \<Rightarrow>
    (LegacyPool \<times> pool_error option list \<times> accountSet option) option" where
  "addRemotes sender now ts pool = addTxs sender now ts False pool"

subsection \<open>Queries and administration\<close>

datatype TxStatus = TxStatusUnknown | TxStatusQueued | TxStatusPending | TxStatusIncluded

definition Status :: "senderf \<Rightarrow> LegacyPool \<Rightarrow> hash \<Rightarrow> TxStatus" where
  "Status sender pool h =
     (case lookup_Get (all pool) h of
        None \<Rightarrow> TxStatusUnknown
      | Some tx \<Rightarrow>
          let from = from_of sender tx;
              in_list = (\<lambda>m. case map_of m from of None \<Rightarrow> False | Some l \<Rightarrow> map_of (items (txs l)) (Nonce tx) \<noteq> None)
          in if in_list (pending pool) then TxStatusPending
             else if in_list (queue pool) then TxStatusQueued else TxStatusUnknown)"

definition pool_Get :: "LegacyPool \<Rightarrow> hash \<Rightarrow> Transaction option" where
  "pool_Get pool h = lookup_Get (all pool) h"

definition pool_Has :: "LegacyPool \<Rightarrow> hash \<Rightarrow> bool" where
  "pool_Has pool h = (lookup_Get (all pool) h \<noteq> None)"

definition pool_Nonce :: "address \<Rightarrow> LegacyPool \<Rightarrow> LegacyPool \<times> u64" where
  "pool_Nonce addr pool = (let (n, v) = noncer_get addr (pendingNonces pool) in (pool\<lparr>pendingNonces := n\<rparr>, v))"

definition stats :: "LegacyPool \<Rightarrow> nat \<times> nat" where
  "stats pool = (sum_list (map (list_Len \<circ> snd) (pending pool)), sum_list (map (list_Len \<circ> snd) (queue pool)))"

text \<open>Reading the lists fills their caches.\<close>

definition flatten_lists :: "(address, txlist) gomap \<Rightarrow> (address, txlist) gomap" where
  "flatten_lists m = map (\<lambda>(a, l). (a, fst (list_Flatten l))) m"

definition Content :: "LegacyPool \<Rightarrow> LegacyPool \<times> (address, Transaction list) gomap \<times> (address, Transaction list) gomap" where
  "Content pool =
     (pool\<lparr>pending := flatten_lists (pending pool), queue := flatten_lists (queue pool)\<rparr>,
      map (\<lambda>(a, l). (a, snd (list_Flatten l))) (pending pool), map (\<lambda>(a, l). (a, snd (list_Flatten l))) (queue pool))"

definition flatten_at :: "address \<Rightarrow> (address, txlist) gomap \<Rightarrow> (address, txlist) gomap \<times> Transaction list" where
  "flatten_at addr m =
     (case map_of m addr of
        None \<Rightarrow> (m, [])
      | Some l \<Rightarrow> let (l, ts) = list_Flatten l in (gm_put addr l m, ts))"

definition ContentFrom :: "address \<Rightarrow> LegacyPool \<Rightarrow> LegacyPool \<times> Transaction list \<times> Transaction list" where
  "ContentFrom addr pool =
     (let (p, ps) = flatten_at addr (pending pool); (q, qs) = flatten_at addr (queue pool)
      in (pool\<lparr>pending := p, queue := q\<rparr>, ps, qs))"

definition Pending :: "bool \<Rightarrow> LegacyPool \<Rightarrow> LegacyPool \<times> (address, Transaction list) gomap" where
  "Pending enforceTips pool =
     (pool\<lparr>pending := flatten_lists (pending pool)\<rparr>,
      filter (\<lambda>(a, ts). ts \<noteq> [])
        (map (\<lambda>(a, l).
           (a, let ts = snd (list_Flatten l)
               in if enforceTips \<and> \<not> as_contains (locals pool) a
                  then takeWhile (\<lambda>tx. \<not> EffectiveGasTipIntCmp tx (gasTip pool) (baseFee (urgent (priced pool))) < 0) ts
                  else ts)) (pending pool)))"

text \<open>An account without pending and queued transactions gets no entry in the result.\<close>

definition local_txs :: "LegacyPool \<Rightarrow> LegacyPool \<times> (address, Transaction list) gomap" where
  "local_txs pool =
     fold (\<lambda>a (pool, res).
             let (pool, ps, qs) = ContentFrom a pool
             in (pool, if map_of (pending pool) a = None \<and> map_of (queue pool) a = None then res else res @ [(a, ps @ qs)]))
       (accounts (locals pool)) (pool, [])"

fun remove_txs :: "senderf \<Rightarrow> int \<Rightarrow> bool \<Rightarrow> Transaction list \<Rightarrow> LegacyPool \<Rightarrow> LegacyPool option" where
  "remove_txs sender now outofbound [] pool = Some pool"
| "remove_txs sender now outofbound (tx # ts) pool =
     do { (pool, _) \<leftarrow> removeTx sender now (tx_hash tx) outofbound pool; remove_txs sender now outofbound ts pool }"

definition SetGasTip :: "senderf \<Rightarrow> int \<Rightarrow> int \<Rightarrow> LegacyPool \<Rightarrow> LegacyPool option" where
  "SetGasTip sender now tip pool =
     (let old = gasTip pool; pool = pool\<lparr>gasTip := tip\<rparr>
      in if big_cmp tip old > 0 then
           let drop = lookup_RemotesBelowTip tip (all pool)
           in do { pool \<leftarrow> remove_txs sender now False drop pool; drop_priced (length drop) pool }
         else Some pool)"

text \<open>The eviction branch of the main loop; an account without a heartbeat has the zero time.\<close>

fun evict :: "senderf \<Rightarrow> int \<Rightarrow> address list \<Rightarrow> LegacyPool \<Rightarrow> LegacyPool option" where
  "evict sender now [] pool = Some pool"
| "evict sender now (addr # as) pool =
     (if as_contains (locals pool) addr then evict sender now as pool
      else if now - (case map_of (beats pool) addr of None \<Rightarrow> 0 | Some t \<Rightarrow> t) > Lifetime (config pool)
      then let (q, ts) = flatten_at addr (queue pool)
           in do { pool \<leftarrow> remove_txs sender now True ts (pool\<lparr>queue := q\<rparr>); evict sender now as pool }
      else evict sender now as pool)"

definition evict_all :: "senderf \<Rightarrow> int \<Rightarrow> LegacyPool \<Rightarrow> LegacyPool option" where
  "evict_all sender now pool = evict sender now (map fst (queue pool)) pool"

subsection \<open>Accounts as nonce-sorted sequences\<close>

definition at_acct :: "(address, txlist) gomap \<Rightarrow> address \<Rightarrow> Transaction list" where
  "at_acct m a = (case map_of m a of None \<Rightarrow> [] | Some l \<Rightarrow> lst l)"

definition listed :: "(address, txlist) gomap \<Rightarrow> Transaction set" where
  "listed m = (\<Union>a. set (at_acct m a))"

text \<open>
  Every list of a map is well-formed, of the map's kind (strict for pending), not empty, and holds
  transactions of the account it is stored under.
\<close>

definition lists_ok :: "senderf \<Rightarrow> bool \<Rightarrow> (address, txlist) gomap \<Rightarrow> bool" where
  "lists_ok sender s m \<longleftrightarrow> gm_wf m \<and>
     (\<forall>a l. map_of m a = Some l \<longrightarrow> list_inv l \<and> strict l = s \<and> lst l \<noteq> [] \<and> (\<forall>t\<in>set (lst l). sender t = Some a))"

lemma at_acct_put [simp]: "at_acct (gm_put a l m) = (at_acct m)(a := lst l)"
  by (auto simp: at_acct_def gomap_simps)

lemma at_acct_del [simp]: "at_acct (gm_del a m) = (at_acct m)(a := [])"
  by (auto simp: at_acct_def gomap_simps)

lemma gm_del_put [simp]: "gm_del a (gm_put a v m) = gm_del a m"
  by (induction m) auto

lemma lists_ok_put:
  "lists_ok sender s m \<Longrightarrow> list_inv l \<Longrightarrow> strict l = s \<Longrightarrow> lst l \<noteq> [] \<Longrightarrow> \<forall>t\<in>set (lst l). sender t = Some a \<Longrightarrow>
   lists_ok sender s (gm_put a l m)"
  by (auto simp: lists_ok_def gomap_simps gm_wf_put split: if_splits)

lemma lists_ok_del: "lists_ok sender s m \<Longrightarrow> lists_ok sender s (gm_del a m)"
  by (auto simp: lists_ok_def gomap_simps gm_wf_del split: if_splits)

lemma lists_ok_at: "lists_ok sender s m \<Longrightarrow> map_of m a = Some l \<Longrightarrow>
  list_inv l \<and> strict l = s \<and> lst l \<noteq> [] \<and> at_acct m a = lst l"
  by (auto simp: lists_ok_def at_acct_def)

lemma lists_ok_sender: "lists_ok sender s m \<Longrightarrow> t \<in> set (at_acct m a) \<Longrightarrow> sender t = Some a"
  by (auto simp: lists_ok_def at_acct_def split: option.splits)

lemma lists_ok_None: "lists_ok sender s m \<Longrightarrow> map_of m a = None \<longleftrightarrow> at_acct m a = []"
  by (auto simp: lists_ok_def at_acct_def split: option.splits)

lemma lists_ok_by_nonce: "lists_ok sender s m \<Longrightarrow> by_nonce (at_acct m a)"
proof (cases "map_of m a")
  case (Some l)
  assume "lists_ok sender s m"
  from lists_ok_at[OF this Some] show ?thesis by (simp add: list_inv_by_nonce)
qed (simp add: at_acct_def by_nonce_def)

lemma listed_iff: "lists_ok sender s m \<Longrightarrow> t \<in> listed m \<longleftrightarrow> (\<exists>a. sender t = Some a \<and> t \<in> set (at_acct m a))"
  using lists_ok_sender[of sender s m t] by (auto simp: listed_def)

lemma listedI: "t \<in> set (at_acct m a) \<Longrightarrow> t \<in> listed m"
  by (auto simp: listed_def)

lemma list_Empty_iff: "list_inv l \<Longrightarrow> list_Empty l \<longleftrightarrow> lst l = []"
  by (simp add: list_Empty_def list_Len_def sortedMap_Len_def lst_def sm_list_def length_0_conv[symmetric]
      del: length_0_conv)

lemma list_Len_eq: "list_inv l \<Longrightarrow> list_Len l = length (lst l)"
  by (simp add: list_Len_def sortedMap_Len_def lst_def sm_list_def)

text \<open>Storing a shorter list, or dropping it when nothing is left.\<close>

definition put_or_del :: "address \<Rightarrow> txlist \<Rightarrow> (address, txlist) gomap \<Rightarrow> (address, txlist) gomap" where
  "put_or_del a l m = (if list_Empty l then gm_del a m else gm_put a l m)"

lemma put_or_del_ok:
  assumes "lists_ok sender s m" "list_inv l" "strict l = s" "set (lst l) \<subseteq> set (at_acct m a)"
  shows "lists_ok sender s (put_or_del a l m)" "at_acct (put_or_del a l m) = (at_acct m)(a := lst l)"
proof -
  have "\<forall>t\<in>set (lst l). sender t = Some a" using assms(1,4) lists_ok_sender by blast
  with assms show "lists_ok sender s (put_or_del a l m)"
    by (simp add: put_or_del_def list_Empty_iff lists_ok_put lists_ok_del)
qed (auto simp: put_or_del_def list_Empty_iff[OF assms(2)])

lemma listed_upd:
  assumes "lists_ok sender s m" "at_acct m' = (at_acct m)(a := xs)"
  shows "listed m' = (listed m - set (at_acct m a)) \<union> set xs"
proof -
  have "t \<notin> set (at_acct m a)" if "t \<in> set (at_acct m b)" "b \<noteq> a" for t b
    using that lists_ok_sender[OF assms(1) that(1)] lists_ok_sender[OF assms(1), of t a] by auto
  then show ?thesis by (auto simp: listed_def assms(2) split: if_splits)
qed

subsection \<open>The transactions the lookup knows\<close>

definition known :: "lookup \<Rightarrow> Transaction set" where
  "known t = {tx. lookup_Get t (tx_hash tx) = Some tx}"

lemma known_Add:
  "lookup_Get t (tx_hash tx) = None \<Longrightarrow> lk_wf t \<Longrightarrow> known (lookup_Add tx local t) = insert tx (known t)"
  by (auto simp: known_def lookup_Add_ok)

lemma known_Remove:
  assumes "lk_wf t"
  shows "lk_wf (lookup_Remove h t)" "known (lookup_Remove h t) = {x \<in> known t. tx_hash x \<noteq> h}"
proof -
  have "lookup_Get t h = None \<Longrightarrow> lookup_Remove h t = t" by (simp add: lookup_Remove_def)
  then show "lk_wf (lookup_Remove h t)" "known (lookup_Remove h t) = {x \<in> known t. tx_hash x \<noteq> h}"
    using assms lookup_Remove_ok[OF assms, of h] by (cases "lookup_Get t h"; auto simp: known_def)+
qed

lemma known_inj: "x \<in> known t \<Longrightarrow> y \<in> known t \<Longrightarrow> tx_hash x = tx_hash y \<Longrightarrow> x = y"
  by (simp add: known_def)

lemma known_Remove_tx: "lk_wf t \<Longrightarrow> tx \<in> known t \<Longrightarrow> known (lookup_Remove (tx_hash tx) t) = known t - {tx}"
  using known_inj[of _ t tx] by (auto simp: known_Remove)

lemma lookup_Get_known: "lk_wf t \<Longrightarrow> lookup_Get t h = Some tx \<longleftrightarrow> tx \<in> known t \<and> tx_hash tx = h"
  by (auto simp: known_def lookup_Get_iff)

lemma remotes_known: "lk_wf t \<Longrightarrow> set (remote_txs t) \<subseteq> known t"
  by (auto simp: known_def lookup_Get_iff lookup_txs_def remote_txs_def)

lemma remotes_Remove: "lk_wf t \<Longrightarrow> set (remote_txs (lookup_Remove h t)) = {x \<in> set (remote_txs t). tx_hash x \<noteq> h}"
proof -
  assume wf: "lk_wf t"
  then have hash: "\<forall>p\<in>set (lk_remotes t). tx_hash (snd p) = fst p" by (simp add: lk_wf_def)
  have "tx_hash x \<noteq> h" if "lookup_Get t h = None" "x \<in> snd ` set (lk_remotes t)" for x
    using that remotes_known[OF wf] by (auto simp: known_def remote_txs_def)
  then show ?thesis using hash
    by (cases "lookup_Get t h") (auto simp: lookup_Remove_def remote_txs_def set_gm_del image_iff)
qed

lemma remotes_Add:
  "lk_wf t \<Longrightarrow> lookup_Get t (tx_hash tx) = None \<Longrightarrow>
   set (remote_txs (lookup_Add tx local t)) = (if local then set (remote_txs t) else insert tx (set (remote_txs t)))"
  by (auto simp: lookup_Add_def remote_txs_def Let_def lookup_Get_def gm_put_new split: option.splits)

end
