(* ===== verification/PoolInvariant.thy ===== *)
theory PoolInvariant
  imports LegacyPool
begin

text \<open>
  The invariant of the pool and its preservation by the operations of \<open>LegacyPool\<close>: the lookup knows
  exactly the transactions of the pending and queued lists, no account has a nonce both pending
  and queued, every list is well-formed, and the price heaps hold every remote transaction.

  While an operation runs, some transactions are known but not listed (\<open>X\<close>, on their way from one list
  to another) and some remote ones have left the heaps (\<open>Y\<close>, about to be dropped).
\<close>

definition heap_txs :: "pricedList \<Rightarrow> Transaction set" where
  "heap_txs l = set (plist (urgent l)) \<union> set (plist (floating l))"

definition pool_inv_on :: "senderf \<Rightarrow> Transaction set \<Rightarrow> Transaction set \<Rightarrow> LegacyPool \<Rightarrow> bool" where
  "pool_inv_on sender X Y pool \<longleftrightarrow>
     lists_ok sender True (pending pool) \<and> lists_ok sender False (queue pool) \<and>
     (\<forall>a. \<forall>p\<in>set (at_acct (pending pool) a). \<forall>q\<in>set (at_acct (queue pool) a). Nonce p \<noteq> Nonce q) \<and>
     lk_wf (all pool) \<and> known (all pool) = listed (pending pool) \<union> listed (queue pool) \<union> X \<and>
     X \<inter> (listed (pending pool) \<union> listed (queue pool)) = {} \<and>
     priced_ok (priced pool) \<and> set (remote_txs (all pool)) \<subseteq> heap_txs (priced pool) \<union> Y"

abbreviation pool_inv :: "senderf \<Rightarrow> LegacyPool \<Rightarrow> bool" where
  "pool_inv sender \<equiv> pool_inv_on sender {} {}"

lemma pool_invD:
  assumes "pool_inv_on sender X Y pool"
  shows "lists_ok sender True (pending pool)" "lists_ok sender False (queue pool)"
    "p \<in> set (at_acct (pending pool) a) \<Longrightarrow> q \<in> set (at_acct (queue pool) a) \<Longrightarrow> Nonce p \<noteq> Nonce q"
    "lk_wf (all pool)" "known (all pool) = listed (pending pool) \<union> listed (queue pool) \<union> X"
    "X \<inter> (listed (pending pool) \<union> listed (queue pool)) = {}"
    "priced_ok (priced pool)" "set (remote_txs (all pool)) \<subseteq> heap_txs (priced pool) \<union> Y"
  using assms unfolding pool_inv_on_def by blast+

text \<open>Fields that no operation on the lists changes.\<close>

definition same_env :: "LegacyPool \<Rightarrow> LegacyPool \<Rightarrow> bool" where
  "same_env p q \<longleftrightarrow> config q = config p \<and> gasTip q = gasTip p \<and> currentHead q = currentHead p \<and>
     st_nonce q = st_nonce p \<and> st_balance q = st_balance p \<and> locals q = locals p"

lemma same_env_refl [simp]: "same_env p p" by (simp add: same_env_def)
lemma same_env_trans: "same_env p q \<Longrightarrow> same_env q r \<Longrightarrow> same_env p r" by (simp add: same_env_def)

lemma drop_priced_ok:
  assumes "priced_ok (priced pool)" "set (remote_txs (all pool)) \<subseteq> heap_txs (priced pool) \<union> Y"
  shows "\<exists>p. drop_priced n pool = Some (pool\<lparr>priced := p\<rparr>) \<and> priced_ok p \<and> set (remote_txs (all pool)) \<subseteq> heap_txs p \<union> Y"
proof (cases "stales (priced pool) + int n \<le> int ((length (plist (urgent (priced pool))) + length (plist (floating (priced pool)))) div 4)")
  case True
  then show ?thesis using assms
    by (intro exI[of _ "(priced pool)\<lparr>stales := stales (priced pool) + int n\<rparr>"])
      (simp add: drop_priced_def priced_Removed_def Let_def priced_ok_def heap_txs_def)
next
  case False
  let ?l = "(priced pool)\<lparr>stales := stales (priced pool) + int n\<rparr>"
  from Reheap_ok[of "all pool" ?l] obtain l' where
    l': "Reheap (all pool) ?l = Some l'" "priced_ok l'"
      "mset (plist (urgent l')) + mset (plist (floating l')) = mset (remote_txs (all pool))" by blast
  have "heap_txs l' = set (remote_txs (all pool))"
    using arg_cong[OF l'(3), of set_mset] by (simp add: heap_txs_def)
  then show ?thesis using False l'(1,2) by (auto simp: drop_priced_def priced_Removed_def Let_def)
qed

text \<open>Forgetting a known transaction that is in no list, or has just left its list.\<close>

lemma forget_ok:
  assumes "pool_inv_on sender X Y pool" "tx \<in> X"
  shows "pool_inv_on sender (X - {tx}) (Y - {tx}) (pool\<lparr>all := lookup_Remove (tx_hash tx) (all pool)\<rparr>)"
proof -
  note inv = pool_invD[OF assms(1)]
  have tx: "tx \<in> known (all pool)" using inv(5) assms(2) by auto
  have rem: "known (lookup_Remove (tx_hash tx) (all pool)) = known (all pool) - {tx}"
    by (rule known_Remove_tx[OF inv(4) tx])
  have "set (remote_txs (lookup_Remove (tx_hash tx) (all pool))) \<subseteq> set (remote_txs (all pool)) - {tx}"
    using remotes_Remove[OF inv(4)] by auto
  then show ?thesis using assms known_Remove(1)[OF inv(4)] rem unfolding pool_inv_on_def by auto
qed

lemma drop_priced_inv:
  assumes "pool_inv_on sender X Y pool"
  shows "\<exists>p. drop_priced n pool = Some (pool\<lparr>priced := p\<rparr>) \<and> pool_inv_on sender X Y (pool\<lparr>priced := p\<rparr>)"
proof -
  from drop_priced_ok[OF pool_invD(7,8)[OF assms], of n] obtain p where
    "drop_priced n pool = Some (pool\<lparr>priced := p\<rparr>)" "priced_ok p" "set (remote_txs (all pool)) \<subseteq> heap_txs p \<union> Y" by blast
  then show ?thesis using assms by (intro exI[of _ p]) (simp add: pool_inv_on_def)
qed

subsection \<open>Queueing\<close>

lemma ins_tx_fresh:
  assumes "by_nonce xs" "\<forall>t\<in>set xs. Nonce t \<noteq> Nonce tx"
  shows "set (ins_tx tx xs) = insert tx (set xs)"
  using by_nonce_absent[OF assms] assms(2) by (auto simp: ins_tx_def neq_iff)

lemma add_fresh:
  assumes "list_inv l" "\<forall>t\<in>set (lst l). Nonce t \<noteq> Nonce tx" "list_Add tx bump l = (l', b, old)"
  shows "list_inv l' \<and> strict l' = strict l \<and> b \<and> old = None \<and> lst l' = ins_tx tx (lst l) \<and>
     set (lst l') = insert tx (set (lst l))"
proof -
  have none: "at_nonce (Nonce tx) (lst l) = None" using assms(2) by (simp add: at_nonce_None)
  then have b: "b" using list_Add_ok(3)[OF assms(1,3)] by (simp add: add_ok_def)
  then show ?thesis
    using list_Add_ok(1,2,4,5)[OF assms(1,3)] none ins_tx_fresh[OF list_inv_by_nonce[OF assms(1)] assms(2)] by simp
qed

text \<open>The list an operation finds for an account, created when there is none.\<close>

definition fetch :: "bool \<Rightarrow> address \<Rightarrow> (address, txlist) gomap \<Rightarrow> txlist" where
  "fetch s a m = (case map_of m a of None \<Rightarrow> newList s | Some l \<Rightarrow> l)"

lemma fetch_ok:
  assumes "lists_ok sender s m"
  shows "list_inv (fetch s a m)" "strict (fetch s a m) = s" "lst (fetch s a m) = at_acct m a"
  using lists_ok_at[OF assms, of a] by (cases "map_of m a"; simp add: fetch_def list_inv_new at_acct_def)+

lemma enqueueTx_eq:
  assumes "sender tx = Some a" "list_Add tx (PriceBump (config pool)) (fetch False a (queue pool)) = (l', ins, old)"
  shows "enqueueTx sender now tx local addAll pool =
     (let pool = pool\<lparr>queue := gm_put a l' (queue pool)\<rparr>
      in if \<not> ins then Some (pool, Inl ErrReplaceUnderpriced)
         else do {
           pool \<leftarrow> (case old of
                      Some o' \<Rightarrow> drop_priced 1 (pool\<lparr>all := lookup_Remove (tx_hash o') (all pool)\<rparr>)
                    | None \<Rightarrow> Some pool);
           let pool = (if addAll then pool\<lparr>all := lookup_Add tx local (all pool), priced := priced_Put tx local (priced pool)\<rparr>
                       else pool);
           let pool = (if map_of (beats pool) a = None then pool\<lparr>beats := gm_put a now (beats pool)\<rparr> else pool);
           Some (pool, Inr (old \<noteq> None)) })"
  using assms by (cases "map_of (queue pool) a")
    (simp_all add: enqueueTx_def from_of_def fetch_def gomap_simps gm_put_twice)

lemma enqueue_known:
  assumes inv: "pool_inv_on sender X Y pool" and tx: "tx \<in> X" "sender tx = Some a"
    and fresh: "\<forall>t\<in>set (at_acct (pending pool) a) \<union> set (at_acct (queue pool) a). Nonce t \<noteq> Nonce tx"
  shows "\<exists>q b. enqueueTx sender now tx False False pool = Some (pool\<lparr>queue := q, beats := b\<rparr>, Inr False) \<and>
     pool_inv_on sender (X - {tx}) Y (pool\<lparr>queue := q, beats := b\<rparr>) \<and>
     at_acct q = (at_acct (queue pool))(a := ins_tx tx (at_acct (queue pool) a)) \<and>
     set (ins_tx tx (at_acct (queue pool) a)) = insert tx (set (at_acct (queue pool) a))"
proof -
  note i = pool_invD[OF inv]
  let ?l = "fetch False a (queue pool)"
  note l = fetch_ok[OF i(2), of a]
  obtain l' ins old where add: "list_Add tx (PriceBump (config pool)) ?l = (l', ins, old)"
    by (cases "list_Add tx (PriceBump (config pool)) ?l")
  have l': "list_inv l'" "strict l' = False" "ins" "old = None" "lst l' = ins_tx tx (lst ?l)" "set (lst l') = insert tx (set (lst ?l))"
    using add_fresh[OF l(1) _ add] fresh l by auto
  let ?q = "gm_put a l' (queue pool)"
  have at: "at_acct ?q = (at_acct (queue pool))(a := lst l')" by simp
  have "lst l' \<noteq> []" using l'(6) by auto
  then have ok: "lists_ok sender False ?q"
    using lists_ok_put[OF i(2) l'(1,2)] l' l tx(2) lists_ok_sender[OF i(2)] by auto
  have li: "listed ?q = insert tx (listed (queue pool))"
    using listed_upd[OF i(2) at] l' l by (auto simp: listed_def)
  let ?p = "\<lambda>b. pool\<lparr>queue := ?q, beats := b\<rparr>"
  have "pool_inv_on sender (X - {tx}) Y (?p b)" for b
    using i tx li ok l' l fresh listed_iff[OF i(1), of tx] unfolding pool_inv_on_def at by auto
  moreover define b where "b = (if map_of (beats pool) a = None then gm_put a now (beats pool) else beats pool)"
  moreover have "enqueueTx sender now tx False False pool = Some (?p b, Inr False)"
    using l' by (simp add: enqueueTx_eq[of sender tx a, OF tx(2) add] Let_def b_def)
  ultimately show ?thesis using l' l by (intro exI[of _ ?q] exI[of _ b]) simp
qed

lemma enqueue_all_ok:
  assumes "pool_inv_on sender X Y pool" "set ts \<subseteq> X" "\<forall>t\<in>set ts. sender t = Some a" "distinct (map Nonce ts)"
    "\<forall>t\<in>set ts. \<forall>u\<in>set (at_acct (pending pool) a) \<union> set (at_acct (queue pool) a). Nonce u \<noteq> Nonce t"
  shows "\<exists>q b. enqueue_all sender now ts pool = Some (pool\<lparr>queue := q, beats := b\<rparr>) \<and>
     pool_inv_on sender (X - set ts) Y (pool\<lparr>queue := q, beats := b\<rparr>) \<and>
     (\<forall>c. c \<noteq> a \<longrightarrow> at_acct q c = at_acct (queue pool) c) \<and> set (at_acct q a) = set ts \<union> set (at_acct (queue pool) a)"
  using assms
proof (induction ts arbitrary: X pool)
  case Nil
  then show ?case by (intro exI[of _ "queue pool"] exI[of _ "beats pool"]) simp
next
  case (Cons t ts)
  from enqueue_known[OF Cons.prems(1), of t a now] Cons.prems(2,3,5) obtain q b where
    q: "enqueueTx sender now t False False pool = Some (pool\<lparr>queue := q, beats := b\<rparr>, Inr False)"
      "pool_inv_on sender (X - {t}) Y (pool\<lparr>queue := q, beats := b\<rparr>)"
      "\<forall>c. c \<noteq> a \<longrightarrow> at_acct q c = at_acct (queue pool) c" "set (at_acct q a) = insert t (set (at_acct (queue pool) a))"
    by auto
  have sub: "set ts \<subseteq> X - {t}" using Cons.prems(2,4) by auto
  have new: "\<forall>u\<in>set ts. \<forall>v\<in>set (at_acct (pending pool) a) \<union> set (at_acct q a). Nonce v \<noteq> Nonce u"
    using Cons.prems(4,5) q(4) by auto
  obtain q' b' where q': "enqueue_all sender now ts (pool\<lparr>queue := q, beats := b\<rparr>) = Some (pool\<lparr>queue := q', beats := b'\<rparr>)"
     "pool_inv_on sender (X - {t} - set ts) Y (pool\<lparr>queue := q', beats := b'\<rparr>)"
     "\<forall>c. c \<noteq> a \<longrightarrow> at_acct q' c = at_acct q c" "set (at_acct q' a) = set ts \<union> set (at_acct q a)"
    using Cons.IH[OF q(2) sub] Cons.prems(3,4) new by auto
  have "X - set (t # ts) = X - {t} - set ts" by auto
  then show ?case using q(1,3,4) q' by (intro exI[of _ q'] exI[of _ b']) simp
qed

subsection \<open>Removing one transaction\<close>

lemma lists_at_Some:
  assumes "lists_ok sender s m" "t \<in> set (at_acct m a)"
  obtains l where "map_of m a = Some l" "list_inv l" "strict l = s" "at_acct m a = lst l"
  using assms lists_ok_at[OF assms(1), of a] by (cases "map_of m a") (auto simp: at_acct_def)

lemma X_unlisted:
  assumes "pool_inv_on sender X Y pool" "t \<in> X"
  shows "t \<notin> set (at_acct (pending pool) a)" "t \<notin> set (at_acct (queue pool) a)"
  using pool_invD(6)[OF assms(1)] assms(2) by (auto simp: listed_def)

lemma lists_disjoint:
  assumes "pool_inv_on sender X Y pool"
  shows "set (at_acct (pending pool) a) \<inter> listed (queue pool) = {} \<and> set (at_acct (queue pool) a) \<inter> listed (pending pool) = {}"
proof -
  note i = pool_invD[OF assms]
  have "False" if "t \<in> set (at_acct (pending pool) b)" "t \<in> set (at_acct (queue pool) c)" for t b c
    using i(3)[of t b t] that lists_ok_sender[OF i(1) that(1)] lists_ok_sender[OF i(2) that(2)] by simp
  then show ?thesis by (auto simp: listed_def)
qed

text \<open>Taking transactions out of the list of an account moves them from the lists to \<open>X\<close>.\<close>

lemma shrink_pending:
  assumes inv: "pool_inv_on sender X Y pool" and l: "list_inv l" "strict l" "set (lst l) \<subseteq> set (at_acct (pending pool) a)"
  shows "pool_inv_on sender (X \<union> (set (at_acct (pending pool) a) - set (lst l))) Y
     (pool\<lparr>pending := put_or_del a l (pending pool)\<rparr>)"
proof -
  note i = pool_invD[OF inv]
  note p = put_or_del_ok[OF i(1) l(1) _ l(3)]
  have "listed (put_or_del a l (pending pool)) = (listed (pending pool) - set (at_acct (pending pool) a)) \<union> set (lst l)"
    using listed_upd[OF i(1) p(2)] l(2) by simp
  moreover have "set (at_acct (pending pool) a) \<subseteq> listed (pending pool)" by (auto simp: listed_def)
  moreover have "set (at_acct (pending pool) a) \<inter> listed (queue pool) = {}"
    using lists_disjoint[OF inv, of a] by blast
  ultimately show ?thesis
    using inv l p unfolding pool_inv_on_def by auto
qed

lemma shrink_queue:
  assumes inv: "pool_inv_on sender X Y pool" and l: "list_inv l" "\<not> strict l" "set (lst l) \<subseteq> set (at_acct (queue pool) a)"
  shows "pool_inv_on sender (X \<union> (set (at_acct (queue pool) a) - set (lst l))) Y
     (pool\<lparr>queue := put_or_del a l (queue pool)\<rparr>)"
proof -
  note i = pool_invD[OF inv]
  note p = put_or_del_ok[OF i(2) l(1) _ l(3)]
  have "listed (put_or_del a l (queue pool)) = (listed (queue pool) - set (at_acct (queue pool) a)) \<union> set (lst l)"
    using listed_upd[OF i(2) p(2)] l(2) by simp
  moreover have "set (at_acct (queue pool) a) \<subseteq> listed (queue pool)" by (auto simp: listed_def)
  moreover have "set (at_acct (queue pool) a) \<inter> listed (pending pool) = {}"
    using lists_disjoint[OF inv, of a] by blast
  ultimately show ?thesis
    using inv l p unfolding pool_inv_on_def by auto
qed


lemma inv_priced:
  "pool_inv_on sender X Y pool \<Longrightarrow> priced_ok p \<Longrightarrow> set (remote_txs (all pool)) \<subseteq> heap_txs p \<union> Y' \<Longrightarrow>
   pool_inv_on sender X Y' (pool\<lparr>priced := p\<rparr>)"
  by (simp add: pool_inv_on_def)

lemma inv_frame [simp]:
  "pool_inv_on sender X Y (pool\<lparr>beats := b\<rparr>) = pool_inv_on sender X Y pool"
  "pool_inv_on sender X Y (pool\<lparr>pendingNonces := n\<rparr>) = pool_inv_on sender X Y pool"
  "pool_inv_on sender X Y (pool\<lparr>changesSinceReorg := i\<rparr>) = pool_inv_on sender X Y pool"
  "pool_inv_on sender X Y (pool\<lparr>locals := s\<rparr>) = pool_inv_on sender X Y pool"
  "pool_inv_on sender X Y (pool\<lparr>gasTip := tip\<rparr>) = pool_inv_on sender X Y pool"
  by (simp_all add: pool_inv_on_def)

lemma maybe_drop:
  assumes "priced_ok (priced pool)" "set (remote_txs (all pool)) \<subseteq> heap_txs (priced pool) \<union> Y"
  obtains p where "(if ob then drop_priced n pool else Some pool) = Some (pool\<lparr>priced := p\<rparr>)" "priced_ok p"
    "set (remote_txs (all pool)) \<subseteq> heap_txs p \<union> Y"
  using drop_priced_ok[OF assms, of n] assms that[of "priced pool"] by (cases ob) auto

lemma removeTx_absent: "lookup_Get (all pool) h = None \<Longrightarrow> removeTx sender now h ob pool = Some (pool, 0)"
  by (simp add: removeTx_def)

lemma by_nonce_others: "by_nonce xs \<Longrightarrow> x \<in> set xs \<Longrightarrow> t \<in> set xs \<Longrightarrow> t \<noteq> x \<Longrightarrow> Nonce t < Nonce x \<or> Nonce x < Nonce t"
  using inj_onD[OF by_nonce_inj, of xs t x] by (meson linorder_neqE)

lemma removeTx_pending:
  assumes inv: "pool_inv_on sender X Y pool" and tx: "tx \<in> set (at_acct (pending pool) a)"
  shows "\<exists>pool'. removeTx sender now (tx_hash tx) ob pool =
       Some (pool', 1 + int (length (filter (\<lambda>t. Nonce tx < Nonce t) (at_acct (pending pool) a)))) \<and>
     pool_inv_on sender X (Y - {tx}) pool' \<and> same_env pool pool' \<and> changesSinceReorg pool' = changesSinceReorg pool \<and>
     all pool' = lookup_Remove (tx_hash tx) (all pool) \<and>
     at_acct (pending pool') = (at_acct (pending pool))(a := filter (\<lambda>t. Nonce t < Nonce tx) (at_acct (pending pool) a)) \<and>
     (\<forall>c. c \<noteq> a \<longrightarrow> at_acct (queue pool') c = at_acct (queue pool) c) \<and>
     set (at_acct (queue pool') a) = {t \<in> set (at_acct (pending pool) a). Nonce tx < Nonce t} \<union> set (at_acct (queue pool) a)"
proof -
  note i = pool_invD[OF inv]
  have snd: "sender tx = Some a" by (rule lists_ok_sender[OF i(1) tx])
  have kn: "tx \<in> known (all pool)" using i(5) tx by (auto simp: listed_def)
  then have get: "lookup_Get (all pool) (tx_hash tx) = Some tx" by (simp add: known_def)
  obtain l where l: "map_of (pending pool) a = Some l" "list_inv l" "strict l = True" "at_acct (pending pool) a = lst l"
    by (rule lists_at_Some[OF i(1) tx])
  obtain l' b ts where R: "list_Remove tx l = (l', b, ts)" by (cases "list_Remove tx l")
  have l': "list_inv l'" "strict l'" "b" "lst l' = filter (\<lambda>t. Nonce t < Nonce tx) (lst l)"
    "mset ts = mset (filter (\<lambda>t. Nonce tx < Nonce t) (lst l))"
    using list_Remove_ok[OF l(2) _ R] tx l by simp_all
  have ts: "set ts = {t \<in> set (lst l). Nonce tx < Nonce t}" "length ts = length (filter (\<lambda>t. Nonce tx < Nonce t) (lst l))"
    using mset_eq_setD[OF l'(5)] mset_eq_length[OF l'(5)] by auto
  let ?all = "lookup_Remove (tx_hash tx) (all pool)" and ?P = "put_or_del a l' (pending pool)"
  have "set (remote_txs ?all) \<subseteq> heap_txs (priced pool) \<union> (Y - {tx})"
    using i(8) remotes_Remove[OF i(4)] by auto
  then obtain p where p: "(if ob then drop_priced 1 (pool\<lparr>all := ?all\<rparr>) else Some (pool\<lparr>all := ?all\<rparr>)) = Some (pool\<lparr>all := ?all, priced := p\<rparr>)"
    "priced_ok p" "set (remote_txs ?all) \<subseteq> heap_txs p \<union> (Y - {tx})"
    using maybe_drop[of "pool\<lparr>all := ?all\<rparr>" "Y - {tx}" ob 1] i(7) by auto
  have "tx \<notin> X" using X_unlisted(1)[OF inv, of tx a] tx by auto
  then have X: "X \<union> (set (lst l) - set (lst l')) - {tx} = X \<union> set ts"
    using by_nonce_others[OF list_inv_by_nonce[OF l(2)], of tx] tx l(4) l'(4) ts(1) by auto
  have sub: "set (lst l') \<subseteq> set (at_acct (pending pool) a)" using l'(4) l(4) by auto
  have "pool_inv_on sender (X \<union> (set (lst l) - set (lst l'))) Y (pool\<lparr>pending := ?P\<rparr>)"
    using shrink_pending[OF inv l'(1,2) sub] l(4) by simp
  from forget_ok[OF this, of tx] have inv1: "pool_inv_on sender (X \<union> set ts) (Y - {tx}) (pool\<lparr>pending := ?P, all := ?all\<rparr>)"
    using tx l(4) l'(4) X by simp
  let ?S = "pool\<lparr>all := ?all, priced := p, pending := ?P\<rparr>"
  have "pool\<lparr>pending := ?P, all := ?all, priced := p\<rparr> = ?S" by simp
  with inv_priced[OF inv1 p(2), of "Y - {tx}"] p(3) have S: "pool_inv_on sender (X \<union> set ts) (Y - {tx}) ?S"
    by simp
  have at: "at_acct ?P = (at_acct (pending pool))(a := lst l')" by (rule put_or_del_ok(2)[OF i(1) l'(1) _ sub]) (simp add: l'(2))
  have "distinct (map Nonce ts)"
    using by_nonce_distinct[OF by_nonce_filter[OF list_inv_by_nonce[OF l(2)], of "\<lambda>t. Nonce tx < Nonce t"]] l'(5)
    by (metis mset_eq_imp_distinct_iff mset_map)
  moreover have "\<forall>t\<in>set ts. \<forall>u\<in>set (at_acct (pending ?S) a) \<union> set (at_acct (queue ?S) a). Nonce u \<noteq> Nonce t"
    using i(3)[of _ a] ts(1) l(4) l'(4) by (auto simp: at) metis
  ultimately obtain q b' where q: "enqueue_all sender now ts ?S = Some (?S\<lparr>queue := q, beats := b'\<rparr>)"
     "pool_inv_on sender (X \<union> set ts - set ts) (Y - {tx}) (?S\<lparr>queue := q, beats := b'\<rparr>)"
     "\<forall>c. c \<noteq> a \<longrightarrow> at_acct q c = at_acct (queue pool) c" "set (at_acct q a) = set ts \<union> set (at_acct (queue pool) a)"
    using enqueue_all_ok[OF S, of ts a now] ts(1) lists_ok_sender[OF i(1)] l(4) by auto
  have "X \<union> set ts - set ts = X" using X_unlisted(1)[OF inv, of _ a] ts(1) l(4) by auto
  then have inv': "pool_inv_on sender X (Y - {tx}) (?S\<lparr>queue := q, beats := b'\<rparr>)" using q(2) by simp
  have "removeTx sender now (tx_hash tx) ob pool =
     Some (?S\<lparr>queue := q, beats := b', pendingNonces := noncer_setIfLower a (Nonce tx) (pendingNonces pool)\<rparr>, 1 + int (length ts))"
    using q(1) l'(3) by (simp add: removeTx_def get from_of_def snd p(1) l(1) R put_or_del_def split: if_splits)
  then show ?thesis using inv' q at ts l(4) l'(4) by (auto simp: same_env_def)
qed


lemma removeTx_queued:
  assumes inv: "pool_inv_on sender X Y pool" and tx: "tx \<in> set (at_acct (queue pool) a)"
  shows "\<exists>pool'. removeTx sender now (tx_hash tx) ob pool = Some (pool', 0) \<and>
     pool_inv_on sender X (Y - {tx}) pool' \<and> same_env pool pool' \<and> changesSinceReorg pool' = changesSinceReorg pool \<and>
     all pool' = lookup_Remove (tx_hash tx) (all pool) \<and> pending pool' = pending pool \<and>
     at_acct (queue pool') = (at_acct (queue pool))(a := filter (\<lambda>t. Nonce t \<noteq> Nonce tx) (at_acct (queue pool) a))"
proof -
  note i = pool_invD[OF inv]
  have snd: "sender tx = Some a" by (rule lists_ok_sender[OF i(2) tx])
  have kn: "tx \<in> known (all pool)" using i(5) tx by (auto simp: listed_def)
  then have get: "lookup_Get (all pool) (tx_hash tx) = Some tx" by (simp add: known_def)
  obtain l where l: "map_of (queue pool) a = Some l" "list_inv l" "strict l = False" "at_acct (queue pool) a = lst l"
    by (rule lists_at_Some[OF i(2) tx])
  obtain l' b ts where R: "list_Remove tx l = (l', b, ts)" by (cases "list_Remove tx l")
  have l': "list_inv l'" "\<not> strict l'" "lst l' = filter (\<lambda>t. Nonce t \<noteq> Nonce tx) (lst l)"
    using list_Remove_ok[OF l(2) _ R] tx l by (simp_all add: neq_iff)
  have pend: "list_Remove tx p = (p, False, [])" if "map_of (pending pool) a = Some p" for p
    using that lists_ok_at[OF i(1) that] i(3)[of _ a tx] tx by (intro list_Remove_absent) auto
  let ?all = "lookup_Remove (tx_hash tx) (all pool)" and ?Q = "put_or_del a l' (queue pool)"
  have "set (remote_txs ?all) \<subseteq> heap_txs (priced pool) \<union> (Y - {tx})"
    using i(8) remotes_Remove[OF i(4)] by auto
  then obtain p where p: "(if ob then drop_priced 1 (pool\<lparr>all := ?all\<rparr>) else Some (pool\<lparr>all := ?all\<rparr>)) = Some (pool\<lparr>all := ?all, priced := p\<rparr>)"
    "priced_ok p" "set (remote_txs ?all) \<subseteq> heap_txs p \<union> (Y - {tx})"
    using maybe_drop[of "pool\<lparr>all := ?all\<rparr>" "Y - {tx}" ob 1] i(7) by auto
  have "tx \<notin> X" using X_unlisted(2)[OF inv, of tx a] tx by auto
  then have X: "X \<union> (set (lst l) - set (lst l')) - {tx} = X"
    using inj_onD[OF by_nonce_inj[OF list_inv_by_nonce[OF l(2)]], of _ tx] tx l(4) l'(3) by auto
  have sub: "set (lst l') \<subseteq> set (at_acct (queue pool) a)" using l'(3) l(4) by auto
  have "pool_inv_on sender (X \<union> (set (lst l) - set (lst l'))) Y (pool\<lparr>queue := ?Q\<rparr>)"
    using shrink_queue[OF inv l'(1,2) sub] l(4) by simp
  from forget_ok[OF this, of tx] have inv1: "pool_inv_on sender X (Y - {tx}) (pool\<lparr>queue := ?Q, all := ?all\<rparr>)"
    using tx l(4) l'(3) X by simp
  let ?S = "pool\<lparr>all := ?all, priced := p, queue := ?Q\<rparr>"
  have "pool\<lparr>queue := ?Q, all := ?all, priced := p\<rparr> = ?S" by simp
  with inv_priced[OF inv1 p(2), of "Y - {tx}"] p(3) have S: "pool_inv_on sender X (Y - {tx}) ?S" by simp
  have at: "at_acct ?Q = (at_acct (queue pool))(a := lst l')" by (rule put_or_del_ok(2)[OF i(2) l'(1) _ sub]) (simp add: l'(2))
  define b where "b = (if list_Empty l' then gm_del a (beats pool) else beats pool)"
  have "removeTx sender now (tx_hash tx) ob pool = Some (?S\<lparr>beats := b\<rparr>, 0)"
  proof (cases "map_of (pending pool) a")
    case None
    then show ?thesis by (simp add: removeTx_def get from_of_def snd p(1) l(1) R put_or_del_def b_def)
  next
    case (Some r)
    then show ?thesis
      by (simp add: removeTx_def get from_of_def snd p(1) l(1) R put_or_del_def b_def pend[OF Some] gm_put_same[OF Some])
  qed
  then show ?thesis using S at l(4) l'(3) by (auto simp: same_env_def)
qed

lemma inv_Y: "pool_inv_on sender X Y pool \<Longrightarrow> set (remote_txs (all pool)) \<subseteq> heap_txs (priced pool) \<union> Y' \<Longrightarrow> pool_inv_on sender X Y' pool"
  by (simp add: pool_inv_on_def)

text \<open>\<open>removeTx\<close> on any hash: it always returns, and forgets exactly the transaction with that hash.\<close>

lemma removeTx_ok:
  assumes inv: "pool_inv_on sender {} Y pool"
  shows "\<exists>pool' n. removeTx sender now h ob pool = Some (pool', n) \<and> pool_inv_on sender {} {y \<in> Y. tx_hash y \<noteq> h} pool' \<and>
     same_env pool pool' \<and> changesSinceReorg pool' = changesSinceReorg pool \<and> all pool' = lookup_Remove h (all pool)"
proof (cases "lookup_Get (all pool) h")
  case None
  note i = pool_invD[OF inv]
  have "set (remote_txs (all pool)) \<subseteq> heap_txs (priced pool) \<union> {y \<in> Y. tx_hash y \<noteq> h}"
    using i(8) remotes_known[OF i(4)] None by (auto simp: known_def)
  then show ?thesis using None removeTx_absent[OF None] inv_Y[OF inv] by (simp add: lookup_Remove_def)
next
  case (Some tx)
  note i = pool_invD[OF inv]
  have tx: "tx \<in> known (all pool)" "tx_hash tx = h" using Some lookup_Get_known[OF i(4)] by auto
  have R: "\<exists>pool' n. removeTx sender now h ob pool = Some (pool', n) \<and> pool_inv_on sender {} (Y - {tx}) pool' \<and>
     same_env pool pool' \<and> changesSinceReorg pool' = changesSinceReorg pool \<and> all pool' = lookup_Remove h (all pool)"
  proof (cases "tx \<in> listed (pending pool)")
    case True
    then obtain a where "tx \<in> set (at_acct (pending pool) a)" by (auto simp: listed_def)
    from removeTx_pending[OF inv this, of now ob] show ?thesis using tx(2) by auto
  next
    case False
    then obtain a where "tx \<in> set (at_acct (queue pool) a)" using i(5) tx(1) by (auto simp: listed_def)
    from removeTx_queued[OF inv this, of now ob] show ?thesis using tx(2) by auto
  qed
  then obtain pool' n where r: "removeTx sender now h ob pool = Some (pool', n)" "pool_inv_on sender {} (Y - {tx}) pool'"
    "same_env pool pool'" "changesSinceReorg pool' = changesSinceReorg pool" "all pool' = lookup_Remove h (all pool)" by blast
  have "set (remote_txs (all pool')) \<subseteq> heap_txs (priced pool') \<union> {y \<in> Y. tx_hash y \<noteq> h}"
    using pool_invD(8)[OF r(2)] remotes_Remove[OF i(4), of h] r(5) by auto
  from inv_Y[OF r(2) this] r show ?thesis by blast
qed

lemma remove_txs_ok:
  assumes "pool_inv_on sender {} Y pool"
  shows "\<exists>pool'. remove_txs sender now ob ts pool = Some pool' \<and> pool_inv_on sender {} {y \<in> Y. tx_hash y \<notin> tx_hash ` set ts} pool' \<and>
     same_env pool pool' \<and> changesSinceReorg pool' = changesSinceReorg pool \<and>
     known (all pool') = {x \<in> known (all pool). tx_hash x \<notin> tx_hash ` set ts}"
  using assms
proof (induction ts arbitrary: pool Y)
  case (Cons t ts)
  from removeTx_ok[OF Cons.prems, of now "tx_hash t" ob] obtain p1 n where
    p1: "removeTx sender now (tx_hash t) ob pool = Some (p1, n)" "pool_inv_on sender {} {y \<in> Y. tx_hash y \<noteq> tx_hash t} p1"
     "same_env pool p1" "changesSinceReorg p1 = changesSinceReorg pool" "all p1 = lookup_Remove (tx_hash t) (all pool)" by blast
  from Cons.IH[OF p1(2)] obtain p2 where
    p2: "remove_txs sender now ob ts p1 = Some p2"
      "pool_inv_on sender {} {y \<in> {y \<in> Y. tx_hash y \<noteq> tx_hash t}. tx_hash y \<notin> tx_hash ` set ts} p2"
     "same_env p1 p2" "changesSinceReorg p2 = changesSinceReorg p1"
     "known (all p2) = {x \<in> known (all p1). tx_hash x \<notin> tx_hash ` set ts}" by blast
  have "{y \<in> {y \<in> Y. tx_hash y \<noteq> tx_hash t}. tx_hash y \<notin> tx_hash ` set ts} = {y \<in> Y. tx_hash y \<notin> tx_hash ` set (t # ts)}"
    by auto
  moreover have "known (all p2) = {x \<in> known (all pool). tx_hash x \<notin> tx_hash ` set (t # ts)}"
    using p2(5) p1(5) known_Remove(2)[OF pool_invD(4)[OF Cons.prems], of "tx_hash t"] by auto
  ultimately show ?case using p1 p2 same_env_trans[OF p1(3) p2(3)] by (intro exI[of _ p2]) simp
qed simp


lemma remove_drops_ok:
  assumes "pool_inv_on sender {} Y pool"
  shows "\<exists>pool'. remove_drops sender now ts pool = Some pool' \<and> pool_inv_on sender {} {y \<in> Y. tx_hash y \<notin> tx_hash ` set ts} pool' \<and>
     same_env pool pool' \<and> known (all pool') = {x \<in> known (all pool). tx_hash x \<notin> tx_hash ` set ts}"
  using assms
proof (induction ts arbitrary: pool Y)
  case (Cons t ts)
  from removeTx_ok[OF Cons.prems, of now "tx_hash t" False] obtain p1 n where
    p1: "removeTx sender now (tx_hash t) False pool = Some (p1, n)" "pool_inv_on sender {} {y \<in> Y. tx_hash y \<noteq> tx_hash t} p1"
     "same_env pool p1" "all p1 = lookup_Remove (tx_hash t) (all pool)" by blast
  let ?p1 = "p1\<lparr>changesSinceReorg := changesSinceReorg p1 + n\<rparr>"
  have env: "same_env pool ?p1" using p1(3) by (simp add: same_env_def)
  from Cons.IH[of "{y \<in> Y. tx_hash y \<noteq> tx_hash t}" ?p1] p1(2) obtain p2 where
    p2: "remove_drops sender now ts ?p1 = Some p2"
      "pool_inv_on sender {} {y \<in> {y \<in> Y. tx_hash y \<noteq> tx_hash t}. tx_hash y \<notin> tx_hash ` set ts} p2"
     "same_env ?p1 p2" "known (all p2) = {x \<in> known (all p1). tx_hash x \<notin> tx_hash ` set ts}" by auto
  have "{y \<in> {y \<in> Y. tx_hash y \<noteq> tx_hash t}. tx_hash y \<notin> tx_hash ` set ts} = {y \<in> Y. tx_hash y \<notin> tx_hash ` set (t # ts)}"
    by auto
  moreover have "known (all p2) = {x \<in> known (all pool). tx_hash x \<notin> tx_hash ` set (t # ts)}"
    using p2(4) p1(4) known_Remove(2)[OF pool_invD(4)[OF Cons.prems], of "tx_hash t"] by auto
  ultimately show ?case using p1 p2 same_env_trans[OF env p2(3)] by (intro exI[of _ p2]) simp
qed simp

lemma remove_drops_all:
  assumes "pool_inv_on sender {} (set ts) pool"
  shows "\<exists>pool'. remove_drops sender now ts pool = Some pool' \<and> pool_inv sender pool' \<and> same_env pool pool' \<and>
     known (all pool') \<subseteq> known (all pool)"
proof -
  have none: "{y \<in> set ts. tx_hash y \<notin> tx_hash ` set ts} = {}" by auto
  show ?thesis using remove_drops_ok[OF assms, of now ts] unfolding none by auto
qed

subsection \<open>Making room\<close>

lemma remote_in_live:
  assumes "lk_wf lk" "t \<in> set (remote_txs lk)"
  shows "t \<in> heap_txs p \<longleftrightarrow> t \<in># live lk (urgent p) + live lk (floating p)"
proof -
  from assms(2) obtain h where h: "(h, t) \<in> set (lk_remotes lk)" by (auto simp: remote_txs_def)
  moreover have "\<forall>p\<in>set (lk_remotes lk). tx_hash (snd p) = fst p" "gm_wf (lk_remotes lk)"
    using assms(1) by (auto simp: lk_wf_def)
  ultimately have "tx_hash t = h" "map_of (lk_remotes lk) h = Some t" by fastforce+
  then show ?thesis by (auto simp: heap_txs_def live_def remote_def lookup_GetRemote_def)
qed

lemma covers_live:
  assumes "lk_wf lk" "set (remote_txs lk) \<subseteq> heap_txs p \<union> Y"
    "live lk (urgent p') + live lk (floating p') + mset ts = live lk (urgent p) + live lk (floating p)"
  shows "set (remote_txs lk) \<subseteq> heap_txs p' \<union> (Y \<union> set ts)"
proof
  fix t assume t: "t \<in> set (remote_txs lk)"
  show "t \<in> heap_txs p' \<union> (Y \<union> set ts)"
  proof (cases "t \<in> Y")
    case False
    then have "t \<in># live lk (urgent p) + live lk (floating p)"
      using t assms(2) remote_in_live[OF assms(1) t, of p] by auto
    then have "t \<in># live lk (urgent p') + live lk (floating p') + mset ts" by (simp only: assms(3))
    then show ?thesis using remote_in_live[OF assms(1) t, of p'] by auto
  qed simp
qed

lemma fold_Put_ok:
  assumes "priced_ok p"
  shows "priced_ok (fold (\<lambda>t p. priced_Put t False p) ts p)"
    "heap_txs (fold (\<lambda>t p. priced_Put t False p) ts p) = heap_txs p \<union> set ts"
proof -
  note f = fold_push_ok[OF assms, of ts]
  let ?p = "fold (\<lambda>tx l. l\<lparr>urgent := priceHeap_push tx (urgent l)\<rparr>) ts p"
  have m: "set (plist (urgent ?p)) = set (plist (urgent p)) \<union> set ts"
    using arg_cong[OF f[THEN conjunct2, THEN conjunct1], of set_mset] by simp
  have "(\<lambda>t p. priced_Put t False p) = (\<lambda>tx l. l\<lparr>urgent := priceHeap_push tx (urgent l)\<rparr>)"
    by (simp add: priced_Put_def fun_eq_iff)
  then show "priced_ok (fold (\<lambda>t p. priced_Put t False p) ts p)"
    "heap_txs (fold (\<lambda>t p. priced_Put t False p) ts p) = heap_txs p \<union> set ts"
    using f m by (auto simp: heap_txs_def)
qed

lemma isGapped_frame: "\<exists>n g. isGapped from tx pool = (pool\<lparr>pendingNonces := n\<rparr>, g)"
  by (cases "noncer_get from (pendingNonces pool)") (auto simp: isGapped_def Let_def)

lemma make_room_ok:
  assumes inv: "pool_inv sender pool"
  shows "\<exists>pool' e. make_room sender now from tx isLocal pool = Some (pool', e) \<and> pool_inv sender pool' \<and>
     same_env pool pool' \<and> known (all pool') \<subseteq> known (all pool) \<and> (e \<noteq> None \<longrightarrow> known (all pool') = known (all pool))"
proof -
  note i = pool_invD[OF inv]
  define u where "u = (if isLocal then (False, priced pool) else Underpriced (all pool) tx (priced pool))"
  have u: "priced_ok (snd u)" "set (remote_txs (all pool)) \<subseteq> heap_txs (snd u)"
    using Underpriced_ok[OF i(7), of "all pool" tx] i(7,8) covers_live[of "all pool" "priced pool" "{}" "snd u" "[]", OF i(4) i(8)]
    by (auto simp: u_def split: if_splits)
  define d where "d = Discard (all pool) (lookup_Slots (all pool) - sint (GlobalSlots (config pool) + GlobalQueue (config pool)) + numSlots tx)
      isLocal (snd u)"
  obtain p drop ok where d': "d = (p, drop, ok)" by (cases d)
  have d: "priced_ok p" "set (remote_txs (all pool)) \<subseteq> heap_txs p \<union> set drop" "ok \<or> drop = []"
    using Discard_ok[OF u(1) d'[unfolded d_def]] covers_live[of "all pool" "snd u" "{}" p drop, OF i(4)] u(2) by auto
  have inv_u: "pool_inv sender (pool\<lparr>priced := snd u\<rparr>)" using inv_priced[OF inv u(1), of "{}"] u(2) by simp
  have inv_d: "pool_inv_on sender {} (set drop) (pool\<lparr>priced := p\<rparr>)" using inv_priced[OF inv d(1,2)] .
  have inv_f: "pool_inv sender (pool\<lparr>priced := fold (\<lambda>t p. priced_Put t False p) drop p\<rparr>)"
    using inv_priced[OF inv fold_Put_ok(1)[OF d(1), of drop], of "{}"] fold_Put_ok(2)[OF d(1), of drop] d(2) by simp
  obtain n gapped where
    g: "\<not> isLocal \<Longrightarrow> isGapped from tx (pool\<lparr>priced := p\<rparr>) = (pool\<lparr>priced := p, pendingNonces := n\<rparr>, gapped)" and
    loc: "isLocal \<Longrightarrow> n = pendingNonces pool \<and> \<not> gapped"
    using isGapped_frame[of "from" tx "pool\<lparr>priced := p\<rparr>"] by (cases isLocal) auto
  have "pool_inv_on sender {} (set drop) (pool\<lparr>priced := p, pendingNonces := n\<rparr>)" using inv_d by simp
  then obtain p2 where
    p2: "remove_drops sender now drop (pool\<lparr>priced := p, pendingNonces := n\<rparr>) = Some p2" "pool_inv sender p2"
      "same_env (pool\<lparr>priced := p, pendingNonces := n\<rparr>) p2" "known (all p2) \<subseteq> known (all pool)"
    using remove_drops_all[of sender drop "pool\<lparr>priced := p, pendingNonces := n\<rparr>" now] by auto
  have env: "same_env pool p2" using p2(3) by (simp add: same_env_def)
  obtain b p0 where u': "u = (b, p0)" by (cases u)
  let ?f = "fold (\<lambda>t p. priced_Put t False p) drop p"
  have "pool\<lparr>priced := p, pendingNonces := n, priced := ?f\<rparr> = pool\<lparr>priced := ?f, pendingNonces := n\<rparr>" by simp
  with inv_f have inv_f: "pool_inv sender (pool\<lparr>priced := p, pendingNonces := n, priced := ?f\<rparr>)"
    by (simp only: inv_frame)
  define c where "c = (gapped \<and> list_ex (\<lambda>dropTx. case map_of (pending pool) (from_of sender dropTx) of
                              None \<Rightarrow> False | Some l \<Rightarrow> list_Contains l (Nonce dropTx)) drop)"
  have "make_room sender now from tx isLocal pool =
     (if \<not> isLocal \<and> b then Some (pool\<lparr>priced := p0\<rparr>, Some (Invalid ErrUnderpriced))
      else if changesSinceReorg pool > uint (GlobalSlots (config pool) div 4) then Some (pool\<lparr>priced := p0\<rparr>, Some ErrTxPoolOverflow)
      else if \<not> isLocal \<and> \<not> ok then Some (pool\<lparr>priced := p\<rparr>, Some ErrTxPoolOverflow)
      else if c then Some (pool\<lparr>priced := p, pendingNonces := n, priced := ?f\<rparr>, Some ErrFutureReplacePending)
      else Some (p2, None))"
    using d' p2(1) g loc unfolding make_room_def u_def[symmetric] u' d_def c_def by (cases isLocal) simp_all
  moreover have "pool_inv sender (pool\<lparr>priced := p\<rparr>)" if "\<not> ok" using inv_d d(3) that by simp
  ultimately show ?thesis using inv_u inv_f p2 env u' by (auto simp: same_env_def)
qed


subsection \<open>Inserting one transaction\<close>

text \<open>The lookup after a new transaction took the place of an old one.\<close>

definition swap_lk :: "Transaction \<Rightarrow> bool \<Rightarrow> Transaction option \<Rightarrow> lookup \<Rightarrow> lookup" where
  "swap_lk tx local old t = lookup_Add tx local (case old of None \<Rightarrow> t | Some o' \<Rightarrow> lookup_Remove (tx_hash o') t)"

lemma swap_lk_ok:
  assumes "lk_wf t" "lookup_Get t (tx_hash tx) = None" "set_option old \<subseteq> known t"
  shows "lk_wf (swap_lk tx local old t)" "known (swap_lk tx local old t) = insert tx (known t - set_option old)"
    "set (remote_txs (swap_lk tx local old t)) \<subseteq> (if local then {} else {tx}) \<union>
       set (remote_txs (case old of None \<Rightarrow> t | Some o' \<Rightarrow> lookup_Remove (tx_hash o') t))"
proof -
  let ?t = "case old of None \<Rightarrow> t | Some o' \<Rightarrow> lookup_Remove (tx_hash o') t"
  have wf: "lk_wf ?t" using known_Remove(1)[OF assms(1)] assms(1) by (cases old) auto
  have kn: "known ?t = known t - set_option old"
    using assms known_Remove_tx[OF assms(1)] by (cases old) auto
  have none: "lookup_Get ?t (tx_hash tx) = None"
    using assms(1,2) lookup_Remove_ok(2)[OF assms(1)] assms(3) by (cases old) (auto simp: known_def)
  show "lk_wf (swap_lk tx local old t)" "known (swap_lk tx local old t) = insert tx (known t - set_option old)"
    "set (remote_txs (swap_lk tx local old t)) \<subseteq> (if local then {} else {tx}) \<union> set (remote_txs ?t)"
    using lookup_Add_ok(1)[OF wf none] known_Add[OF none wf] kn remotes_Add[OF wf none]
    unfolding swap_lk_def by auto
qed

lemma set_ins_old:
  assumes "by_nonce xs"
  shows "set (ins_tx tx xs) = insert tx (set xs - set_option (at_nonce (Nonce tx) xs))"
proof (cases "at_nonce (Nonce tx) xs")
  case None
  then show ?thesis using ins_tx_fresh[OF assms, of tx] at_nonce_None[of "Nonce tx" xs] by simp
next
  case (Some old)
  then have old: "old \<in> set xs" "Nonce old = Nonce tx" using at_nonce_Some by auto
  then show ?thesis
    using by_nonce_others[OF assms old(1)] Some by (auto simp: ins_tx_def)
qed

lemma unknown_unlisted:
  assumes "pool_inv_on sender X Y pool" "lookup_Get (all pool) (tx_hash tx) = None"
  shows "tx \<notin> listed (pending pool)" "tx \<notin> listed (queue pool)"
  using pool_invD(5)[OF assms(1)] assms(2) by (auto simp: known_def set_eq_iff) (metis option.distinct(1))+

lemma new_queued:
  assumes inv: "pool_inv sender pool" and tx: "sender tx = Some a" "lookup_Get (all pool) (tx_hash tx) = None"
    and fresh: "\<forall>t\<in>set (at_acct (pending pool) a). Nonce t \<noteq> Nonce tx"
    and l: "list_inv l" "\<not> strict l" "lst l = ins_tx tx (at_acct (queue pool) a)"
    and p: "priced_ok p" "set (remote_txs (swap_lk tx local (at_nonce (Nonce tx) (at_acct (queue pool) a)) (all pool))) \<subseteq> heap_txs p"
  shows "pool_inv sender (pool\<lparr>queue := gm_put a l (queue pool),
     all := swap_lk tx local (at_nonce (Nonce tx) (at_acct (queue pool) a)) (all pool), priced := p\<rparr>)"
proof -
  note i = pool_invD[OF inv]
  let ?Q = "at_acct (queue pool) a" and ?q = "gm_put a l (queue pool)"
  let ?old = "at_nonce (Nonce tx) ?Q"
  have set: "set (lst l) = insert tx (set ?Q - set_option ?old)"
    using set_ins_old[OF lists_ok_by_nonce[OF i(2)]] l(3) by simp
  have old: "set_option ?old \<subseteq> set ?Q" using at_nonce_Some[of "Nonce tx" ?Q] by (cases ?old) auto
  then have "set_option ?old \<subseteq> listed (queue pool)" by (auto simp: listed_def)
  moreover from this have "set_option ?old \<subseteq> known (all pool)" using i(5) by auto
  note lk = swap_lk_ok[OF i(4) tx(2) this]
  have "lst l \<noteq> []" using set by auto
  moreover have "\<forall>t\<in>set (lst l). sender t = Some a" using set tx(1) lists_ok_sender[OF i(2)] by auto
  ultimately have ok: "lists_ok sender False ?q" using lists_ok_put[OF i(2) l(1)] l(2) by simp
  have "set ?Q \<subseteq> listed (queue pool)" by (auto simp: listed_def)
  then have li: "listed ?q = insert tx (listed (queue pool) - set_option ?old)"
    using listed_upd[OF i(2), of ?q a "lst l"] set old by auto
  have "set_option ?old \<inter> listed (pending pool) = {}" using lists_disjoint[OF inv, of a] old by blast
  then have "known (swap_lk tx local ?old (all pool)) = listed (pending pool) \<union> listed ?q"
    using lk(2) li i(5) unknown_unlisted[OF inv tx(2)] by auto
  moreover have "\<forall>c. \<forall>t\<in>set (at_acct (pending pool) c). \<forall>q\<in>set (at_acct ?q c). Nonce t \<noteq> Nonce q"
    using i(3) fresh set by auto
  ultimately show ?thesis using i(1) ok lk(1) p unfolding pool_inv_on_def by simp
qed

lemma new_pending:
  assumes inv: "pool_inv sender pool" and tx: "sender tx = Some a" "lookup_Get (all pool) (tx_hash tx) = None"
    and fresh: "\<forall>t\<in>set (at_acct (queue pool) a). Nonce t \<noteq> Nonce tx"
    and l: "list_inv l" "strict l" "lst l = ins_tx tx (at_acct (pending pool) a)"
    and p: "priced_ok p" "set (remote_txs (swap_lk tx local (at_nonce (Nonce tx) (at_acct (pending pool) a)) (all pool))) \<subseteq> heap_txs p"
  shows "pool_inv sender (pool\<lparr>pending := gm_put a l (pending pool),
     all := swap_lk tx local (at_nonce (Nonce tx) (at_acct (pending pool) a)) (all pool), priced := p\<rparr>)"
proof -
  note i = pool_invD[OF inv]
  let ?P = "at_acct (pending pool) a" and ?p = "gm_put a l (pending pool)"
  let ?old = "at_nonce (Nonce tx) ?P"
  have set: "set (lst l) = insert tx (set ?P - set_option ?old)"
    using set_ins_old[OF lists_ok_by_nonce[OF i(1)]] l(3) by simp
  have old: "set_option ?old \<subseteq> set ?P" using at_nonce_Some[of "Nonce tx" ?P] by (cases ?old) auto
  then have "set_option ?old \<subseteq> listed (pending pool)" by (auto simp: listed_def)
  moreover from this have "set_option ?old \<subseteq> known (all pool)" using i(5) by auto
  note lk = swap_lk_ok[OF i(4) tx(2) this]
  have "lst l \<noteq> []" using set by auto
  moreover have "\<forall>t\<in>set (lst l). sender t = Some a" using set tx(1) lists_ok_sender[OF i(1)] by auto
  ultimately have ok: "lists_ok sender True ?p" using lists_ok_put[OF i(1) l(1)] l(2) by simp
  have "set ?P \<subseteq> listed (pending pool)" by (auto simp: listed_def)
  then have li: "listed ?p = insert tx (listed (pending pool) - set_option ?old)"
    using listed_upd[OF i(1), of ?p a "lst l"] set old by auto
  have "set_option ?old \<inter> listed (queue pool) = {}" using lists_disjoint[OF inv, of a] old by blast
  then have "known (swap_lk tx local ?old (all pool)) = listed ?p \<union> listed (queue pool)"
    using lk(2) li i(5) unknown_unlisted[OF inv tx(2)] by auto
  moreover have "\<forall>c. \<forall>t\<in>set (at_acct ?p c). \<forall>q\<in>set (at_acct (queue pool) c). Nonce t \<noteq> Nonce q"
    using i(3) fresh set by auto
  ultimately show ?thesis using i(2) ok lk(1) p unfolding pool_inv_on_def by simp
qed


end
