(* ===== verification/PoolAdd.thy ===== *)
theory PoolAdd
  imports PoolInvariant
begin

text \<open>
  Adding transactions keeps the invariant of the pool: \<open>enqueueTx\<close>, the replacement of a pending
  transaction, \<open>add\<close>, the batches \<open>addTxsLocked\<close> and \<open>addTxs\<close>, and the administrative operations.
\<close>

text \<open>Adding a transaction may also make an account local; the rest of the environment stays.\<close>

definition same_chain :: "LegacyPool \<Rightarrow> LegacyPool \<Rightarrow> bool" where
  "same_chain p q \<longleftrightarrow> config q = config p \<and> gasTip q = gasTip p \<and> currentHead q = currentHead p \<and>
     st_nonce q = st_nonce p \<and> st_balance q = st_balance p"

lemma same_chain_simps [simp]: "same_chain p p" "same_env p q \<Longrightarrow> same_chain p q"
  by (simp_all add: same_chain_def same_env_def)

lemma same_chain_trans: "same_chain p q \<Longrightarrow> same_chain q r \<Longrightarrow> same_chain p r"
  by (simp add: same_chain_def)

lemma priced_Put_ok: "priced_ok p \<Longrightarrow> priced_ok (priced_Put tx local p) \<and>
  heap_txs (priced_Put tx local p) = (if local then {} else {tx}) \<union> heap_txs p"
proof -
  assume "priced_ok p"
  then have h: "heap_ok (urgent p)" by (simp add: priced_ok_def)
  have "set (plist (priceHeap_push tx (urgent p))) = insert tx (set (plist (urgent p)))"
    using arg_cong[OF push_ok(2)[OF h, of tx], of set_mset] by simp
  then show ?thesis using \<open>priced_ok p\<close> push_ok(1)[OF h, of tx] by (auto simp: priced_Put_def priced_ok_def heap_txs_def)
qed

text \<open>The price heaps after a new transaction took the place of an old one.\<close>

lemma swap_priced:
  assumes inv: "pool_inv sender pool" and tx: "lookup_Get (all pool) (tx_hash tx) = None"
    and old: "set_option old \<subseteq> known (all pool)" and p': "priced pool' = priced pool"
      "all pool' = (case old of None \<Rightarrow> all pool | Some o' \<Rightarrow> lookup_Remove (tx_hash o') (all pool))"
  obtains p where "old \<noteq> None \<Longrightarrow> drop_priced 1 pool' = Some (pool'\<lparr>priced := p\<rparr>)" "old = None \<Longrightarrow> p = priced pool'"
    "priced_ok (priced_Put tx local p)" "set (remote_txs (swap_lk tx local old (all pool))) \<subseteq> heap_txs (priced_Put tx local p)"
proof -
  note i = pool_invD[OF inv]
  have cov: "set (remote_txs (all pool')) \<subseteq> heap_txs (priced pool') \<union> {}"
    using i(8) remotes_Remove[OF i(4)] unfolding p' by (cases old) auto
  obtain p where p: "old \<noteq> None \<Longrightarrow> drop_priced 1 pool' = Some (pool'\<lparr>priced := p\<rparr>)" "old = None \<Longrightarrow> p = priced pool'"
    "priced_ok p" "set (remote_txs (all pool')) \<subseteq> heap_txs p"
  proof (cases old)
    case None
    then show ?thesis using that[of "priced pool'"] i(7) cov p'(1) by simp
  next
    case (Some o')
    then show ?thesis using that drop_priced_ok[OF _ cov, of 1] i(7) p'(1) by auto
  qed
  from swap_lk_ok(3)[OF i(4) tx old, of local] p(4) show ?thesis
    using that[OF p(1,2)] priced_Put_ok[OF p(3), of tx local] unfolding p' by auto
qed

lemma replace_pending_ok:
  assumes inv: "pool_inv sender pool" and tx: "sender tx = Some a" "lookup_Get (all pool) (tx_hash tx) = None"
    and l: "map_of (pending pool) a = Some l" "list_Contains l (Nonce tx)"
  shows "\<exists>pool' r. replace_pending now tx a isLocal l pool = Some (pool', r) \<and> pool_inv sender pool' \<and> same_env pool pool' \<and>
     (case r of Inl e \<Rightarrow> known (all pool') = known (all pool) | Inr _ \<Rightarrow> known (all pool') = insert tx (known (all pool) - set_option (at_nonce (Nonce tx) (lst l))))"
proof -
  note i = pool_invD[OF inv]
  note ok = lists_ok_at[OF i(1) l(1)]
  have old: "at_nonce (Nonce tx) (lst l) \<noteq> None"
    using l(2) ok Get_at_nonce[of "txs l"] by (simp add: list_Contains_def lst_def list_inv_def)
  then obtain o' where o': "at_nonce (Nonce tx) (lst l) = Some o'" by auto
  note oin = at_nonce_Some[OF o']
  have kn: "set_option (Some o') \<subseteq> known (all pool)" using oin ok i(5) listedI[of o' "pending pool" a] by auto
  have fresh: "\<forall>t\<in>set (at_acct (queue pool) a). Nonce t \<noteq> Nonce tx"
    using i(3)[of o' a] oin ok by metis
  obtain l' ins od where A: "list_Add tx (PriceBump (config pool)) l = (l', ins, od)"
    by (cases "list_Add tx (PriceBump (config pool)) l")
  note add = list_Add_ok[OF ok[THEN conjunct1] A]
  show ?thesis
  proof (cases ins)
    case False
    then have "replace_pending now tx a isLocal l pool = Some (pool, Inl ErrReplaceUnderpriced)"
      using add(6) A by (simp add: replace_pending_def gm_put_same[OF l(1)])
    then show ?thesis using inv by auto
  next
    case True
    let ?P = "gm_put a l' (pending pool)" and ?rem = "lookup_Remove (tx_hash o') (all pool)"
    have p1: "priced (pool\<lparr>pending := ?P, all := ?rem\<rparr>) = priced pool"
      "all (pool\<lparr>pending := ?P, all := ?rem\<rparr>) = (case Some o' of None \<Rightarrow> all pool | Some o' \<Rightarrow> lookup_Remove (tx_hash o') (all pool))"
      by simp_all
    obtain p where p: "drop_priced 1 (pool\<lparr>pending := ?P, all := ?rem\<rparr>) = Some (pool\<lparr>pending := ?P, all := ?rem, priced := p\<rparr>)"
      "priced_ok (priced_Put tx isLocal p)" "set (remote_txs (swap_lk tx isLocal (Some o') (all pool))) \<subseteq> heap_txs (priced_Put tx isLocal p)"
      using swap_priced[OF inv tx(2) kn p1, of isLocal] by blast
    let ?F = "pool\<lparr>pending := ?P, all := swap_lk tx isLocal (Some o') (all pool), priced := priced_Put tx isLocal p\<rparr>"
    have "pool_inv sender ?F"
      using new_pending[OF inv tx fresh add(1), of "priced_Put tx isLocal p" isLocal] add ok True o' p(2,3) by simp
    moreover have "replace_pending now tx a isLocal l pool = Some (?F\<lparr>beats := gm_put a now (beats pool)\<rparr>, Inr True)"
      using A True add(5) o' p(1) by (simp add: replace_pending_def swap_lk_def)
    ultimately show ?thesis using swap_lk_ok(2)[OF i(4) tx(2) kn, of isLocal] o'
      by (intro exI[of _ "?F\<lparr>beats := gm_put a now (beats pool)\<rparr>"] exI[of _ "Inr True"]) (simp add: same_env_def)
  qed
qed


lemma enqueue_add_ok:
  assumes inv: "pool_inv sender pool" and tx: "sender tx = Some a" "lookup_Get (all pool) (tx_hash tx) = None"
    and fresh: "\<forall>t\<in>set (at_acct (pending pool) a). Nonce t \<noteq> Nonce tx"
  shows "\<exists>pool' r. enqueueTx sender now tx isLocal True pool = Some (pool', r) \<and> pool_inv sender pool' \<and> same_env pool pool' \<and>
     (case r of Inl e \<Rightarrow> known (all pool') = known (all pool)
      | Inr _ \<Rightarrow> known (all pool') = insert tx (known (all pool) - set_option (at_nonce (Nonce tx) (at_acct (queue pool) a))))"
proof -
  note i = pool_invD[OF inv]
  let ?l = "fetch False a (queue pool)" and ?Q = "at_acct (queue pool) a"
  note l = fetch_ok[OF i(2), of a]
  obtain l' ins old where A: "list_Add tx (PriceBump (config pool)) ?l = (l', ins, old)"
    by (cases "list_Add tx (PriceBump (config pool)) ?l")
  note add = list_Add_ok[OF l(1) A]
  note eq = enqueueTx_eq[of sender tx a, OF tx(1) A, of now isLocal True]
  show ?thesis
  proof (cases ins)
    case False
    then have "at_nonce (Nonce tx) ?Q \<noteq> None" using add(3) l(3) by (auto simp: add_ok_def split: option.splits)
    then have some: "map_of (queue pool) a \<noteq> None" by (auto simp: at_acct_def at_nonce_def split: option.splits)
    then have "map_of (queue pool) a = Some l'" using add(6)[OF False] by (auto simp: fetch_def)
    then have "enqueueTx sender now tx isLocal True pool = Some (pool, Inl ErrReplaceUnderpriced)"
      using False by (simp add: eq gm_put_same)
    then show ?thesis using inv by auto
  next
    case True
    then have old: "old = at_nonce (Nonce tx) ?Q" using add(5) l(3) by simp
    then have kn: "set_option old \<subseteq> known (all pool)"
      using at_nonce_Some[of "Nonce tx" ?Q] i(5) listedI[of _ "queue pool" a] by (cases old) auto
    let ?q = "gm_put a l' (queue pool)"
    define pool1 where "pool1 = pool\<lparr>queue := ?q, all := (case old of None \<Rightarrow> all pool | Some o' \<Rightarrow> lookup_Remove (tx_hash o') (all pool))\<rparr>"
    have p1: "priced pool1 = priced pool" "all pool1 = (case old of None \<Rightarrow> all pool | Some o' \<Rightarrow> lookup_Remove (tx_hash o') (all pool))"
      by (simp_all add: pool1_def)
    obtain p where p: "old \<noteq> None \<Longrightarrow> drop_priced 1 pool1 = Some (pool1\<lparr>priced := p\<rparr>)" "old = None \<Longrightarrow> p = priced pool1"
      "priced_ok (priced_Put tx isLocal p)" "set (remote_txs (swap_lk tx isLocal old (all pool))) \<subseteq> heap_txs (priced_Put tx isLocal p)"
      using swap_priced[OF inv tx(2) kn p1, of isLocal] by blast
    let ?F = "pool\<lparr>queue := ?q, all := swap_lk tx isLocal old (all pool), priced := priced_Put tx isLocal p\<rparr>"
    have F: "pool_inv sender ?F"
      using new_queued[OF inv tx fresh add(1), of "priced_Put tx isLocal p" isLocal] add l True old p(3,4) by simp
    define b where "b = (if map_of (beats pool) a = None then gm_put a now (beats pool) else beats pool)"
    have "enqueueTx sender now tx isLocal True pool = Some (?F\<lparr>beats := b\<rparr>, Inr (old \<noteq> None))"
      using True p(1,2) unfolding eq by (cases old) (simp_all add: Let_def swap_lk_def pool1_def b_def)
    then show ?thesis using F swap_lk_ok(2)[OF i(4) tx(2) kn, of isLocal] old
      by (intro exI[of _ "?F\<lparr>beats := b\<rparr>"] exI[of _ "Inr (old \<noteq> None)"]) (simp add: same_env_def)
  qed
qed

text \<open>Moving remote entries to the local map changes neither what is known nor the slot count.\<close>

lemma migrate_one:
  assumes wf: "lk_wf t" and e: "(h, tx) \<in> set (lk_remotes t)"
  defines "t' \<equiv> t\<lparr>lk_locals := gm_put h tx (lk_locals t), lk_remotes := gm_del h (lk_remotes t)\<rparr>"
  shows "lk_wf t'" "known t' = known t" "set (lk_remotes t') = {p \<in> set (lk_remotes t). fst p \<noteq> h}"
proof -
  note w = wf[unfolded lk_wf_def]
  have r: "map_of (lk_remotes t) h = Some tx" using w e by simp
  have "h \<in> fst ` set (lk_remotes t)" using e by force
  then have nl: "map_of (lk_locals t) h = None" using w by (auto simp: map_of_eq_None_iff)
  have get: "lookup_Get t' = lookup_Get t"
    using r nl by (auto simp: fun_eq_iff t'_def lookup_Get_def gomap_simps split: option.splits)
  then show "known t' = known t" by (simp add: known_def)
  show rem: "set (lk_remotes t') = {p \<in> set (lk_remotes t). fst p \<noteq> h}" by (simp add: t'_def set_gm_del)
  have "mset (lookup_txs t') = mset (lookup_txs t)"
    using gm_del_mset[OF _ r] w nl by (simp add: lookup_txs_def t'_def gm_put_new)
  then have "slots_of_txs (lookup_txs t') = slots_of_txs (lookup_txs t)" by (rule slots_of_txs_mset)
  moreover have "set (lk_locals t') = insert (h, tx) (set (lk_locals t))" using nl by (simp add: t'_def gm_put_new)
  moreover have "tx_hash tx = h" using w e by force
  ultimately show "lk_wf t'" using w e rem
    unfolding lk_wf_def by (auto simp: t'_def gm_wf_put gm_wf_del)
qed

lemma RemoteToLocals_ok:
  assumes "lk_wf t"
  shows "lk_wf (fst (lookup_RemoteToLocals sender s t))" "known (fst (lookup_RemoteToLocals sender s t)) = known t"
    "set (remote_txs (fst (lookup_RemoteToLocals sender s t))) \<subseteq> set (remote_txs t)"
proof -
  let ?f = "\<lambda>(h, tx) (t, migrated). if as_containsTx sender s tx
             then (t\<lparr>lk_locals := gm_put h tx (lk_locals t), lk_remotes := gm_del h (lk_remotes t)\<rparr>, migrated + 1)
             else (t, migrated :: nat)"
  have "lk_wf (fst (fold ?f es (t, n))) \<and> known (fst (fold ?f es (t, n))) = known t \<and>
     set (lk_remotes (fst (fold ?f es (t, n)))) \<subseteq> set (lk_remotes t)"
    if "lk_wf t" "set es \<subseteq> set (lk_remotes t)" "gm_wf es" for es t n
    using that
  proof (induction es arbitrary: t n)
    case (Cons e es)
    obtain h tx where e: "e = (h, tx)" by (cases e)
    show ?case
    proof (cases "as_containsTx sender s tx")
      case True
      let ?t = "t\<lparr>lk_locals := gm_put h tx (lk_locals t), lk_remotes := gm_del h (lk_remotes t)\<rparr>"
      note m = migrate_one[OF Cons.prems(1), of h tx]
      have "set es \<subseteq> set (lk_remotes ?t)" using Cons.prems(2,3) e m(3) by force
      with Cons.IH[of ?t "n + 1"] m Cons.prems e True show ?thesis by auto
    next
      case False
      then show ?thesis using Cons.IH[of t n] Cons.prems e by simp
    qed
  qed simp
  from this[of t "lk_remotes t" 0] assms
  show "lk_wf (fst (lookup_RemoteToLocals sender s t))" "known (fst (lookup_RemoteToLocals sender s t)) = known t"
    "set (remote_txs (fst (lookup_RemoteToLocals sender s t))) \<subseteq> set (remote_txs t)"
    by (auto simp: lookup_RemoteToLocals_def remote_txs_def lk_wf_def)
qed


lemma enqueue_new_ok:
  assumes inv: "pool_inv sender pool" and tx: "sender tx = Some a" "lookup_Get (all pool) (tx_hash tx) = None"
    and fresh: "\<forall>t\<in>set (at_acct (pending pool) a). Nonce t \<noteq> Nonce tx"
  shows "\<exists>pool' r. enqueue_new sender now tx a local isLocal pool = Some (pool', r) \<and> pool_inv sender pool' \<and> same_chain pool pool' \<and>
     (case r of Inl e \<Rightarrow> known (all pool') = known (all pool)
      | Inr _ \<Rightarrow> known (all pool') = insert tx (known (all pool) - set_option (at_nonce (Nonce tx) (at_acct (queue pool) a))))"
proof -
  from enqueue_add_ok[OF assms, of now isLocal] obtain p1 r where
    p1: "enqueueTx sender now tx isLocal True pool = Some (p1, r)" "pool_inv sender p1" "same_env pool p1"
      "case r of Inl e \<Rightarrow> known (all p1) = known (all pool)
      | Inr _ \<Rightarrow> known (all p1) = insert tx (known (all pool) - set_option (at_nonce (Nonce tx) (at_acct (queue pool) a)))" by blast
  show ?thesis
  proof (cases "\<exists>b. r = Inr b \<and> local \<and> \<not> as_contains (locals p1) a")
    case False
    then have "enqueue_new sender now tx a local isLocal pool = Some (p1, r)"
      using p1(1) by (auto simp: enqueue_new_def split: sum.split)
    then show ?thesis using p1 by auto
  next
    case True
    then obtain b where r: "r = Inr b" "local" "\<not> as_contains (locals p1) a" by blast
    note i = pool_invD[OF p1(2)]
    let ?loc = "as_add a (locals p1)"
    obtain all' n where m: "lookup_RemoteToLocals sender ?loc (all p1) = (all', n)"
      by (cases "lookup_RemoteToLocals sender ?loc (all p1)")
    note mig = RemoteToLocals_ok[OF i(4), of sender ?loc, unfolded m fst_conv]
    let ?p2 = "p1\<lparr>locals := ?loc, all := all'\<rparr>"
    have "pool_inv sender ?p2" using p1(2) mig unfolding pool_inv_on_def by auto
    from drop_priced_inv[OF this, of n] obtain p where
      p: "drop_priced n ?p2 = Some (?p2\<lparr>priced := p\<rparr>)" "pool_inv sender (?p2\<lparr>priced := p\<rparr>)" by blast
    have "enqueue_new sender now tx a local isLocal pool = Some (?p2\<lparr>priced := p\<rparr>, Inr b)"
      using p1(1) r p(1) m by (simp add: enqueue_new_def)
    then show ?thesis using p(2) p1(3,4) mig(2) r(1)
      by (intro exI[of _ "?p2\<lparr>priced := p\<rparr>"] exI[of _ "Inr b"]) (simp add: same_chain_def same_env_def)
  qed
qed

lemma list_Contains_iff: "list_inv l \<Longrightarrow> list_Contains l n \<longleftrightarrow> (\<exists>t\<in>set (lst l). Nonce t = n)"
  using Get_at_nonce[of "txs l" n] at_nonce_None[of n "lst l"] by (auto simp: list_Contains_def list_inv_def lst_def)

lemma validateTx_sender: "validateTx sender tx pool = None \<Longrightarrow> \<exists>a. sender tx = Some a"
  by (auto simp: validateTx_def ValidateTransactionWithState_def split: option.splits)

text \<open>What \<open>add\<close> does to the set of known transactions.\<close>

lemma add_tx_ok:
  assumes inv: "pool_inv sender pool"
  shows "\<exists>pool' r. add_tx sender now tx local pool = Some (pool', r) \<and> pool_inv sender pool' \<and> same_chain pool pool' \<and>
     (case r of Inl e \<Rightarrow> known (all pool') \<subseteq> known (all pool)
      | Inr _ \<Rightarrow> tx \<in> known (all pool') \<and> known (all pool') \<subseteq> insert tx (known (all pool)))"
proof (cases "lookup_Get (all pool) (tx_hash tx) \<noteq> None \<or> validateTx sender tx pool \<noteq> None")
  case True
  then have "\<exists>e. add_tx sender now tx local pool = Some (pool, Inl e)"
    by (auto simp: add_tx_def Let_def split: option.splits)
  then show ?thesis using inv by auto
next
  case False
  then have none: "lookup_Get (all pool) (tx_hash tx) = None" "validateTx sender tx pool = None" by auto
  from validateTx_sender[OF none(2)] obtain a where a: "sender tx = Some a" ..
  let ?isLocal = "local \<or> as_containsTx sender (locals pool) tx"
  let ?full = "word_of_int (lookup_Slots (all pool) + numSlots tx) > GlobalSlots (config pool) + GlobalQueue (config pool)"
  obtain p1 e where p1: "(if ?full then make_room sender now a tx ?isLocal pool else Some (pool, None)) = Some (p1, e)"
    "pool_inv sender p1" "same_env pool p1" "known (all p1) \<subseteq> known (all pool)"
    using make_room_ok[OF inv, of now a tx ?isLocal] inv by (cases ?full) auto
  have none1: "lookup_Get (all p1) (tx_hash tx) = None"
    using p1(4) none(1) lookup_Get_known[OF pool_invD(4)[OF p1(2)]] lookup_Get_known[OF pool_invD(4)[OF inv]]
    by (metis not_None_eq subsetD)
  define rest where "rest = (case map_of (pending p1) a of
      Some l \<Rightarrow> if list_Contains l (Nonce tx) then replace_pending now tx a ?isLocal l p1
                else enqueue_new sender now tx a local ?isLocal p1
    | None \<Rightarrow> enqueue_new sender now tx a local ?isLocal p1)"
  have eq: "add_tx sender now tx local pool = (case e of Some e \<Rightarrow> Some (p1, Inl e) | None \<Rightarrow> rest)"
    using p1(1) none a by (simp add: add_tx_def from_of_def rest_def Let_def split: option.split)
  have new: "\<exists>pool' r. enqueue_new sender now tx a local ?isLocal p1 = Some (pool', r) \<and> pool_inv sender pool' \<and>
     same_chain p1 pool' \<and> (case r of Inl e \<Rightarrow> known (all pool') \<subseteq> known (all p1)
      | Inr _ \<Rightarrow> tx \<in> known (all pool') \<and> known (all pool') \<subseteq> insert tx (known (all p1)))"
    if "\<forall>t\<in>set (at_acct (pending p1) a). Nonce t \<noteq> Nonce tx"
    using enqueue_new_ok[OF p1(2) a none1 that, of now local ?isLocal] by (fastforce split: sum.splits)
  have "\<exists>pool' r. rest = Some (pool', r) \<and> pool_inv sender pool' \<and> same_chain p1 pool' \<and>
     (case r of Inl e \<Rightarrow> known (all pool') \<subseteq> known (all p1)
      | Inr _ \<Rightarrow> tx \<in> known (all pool') \<and> known (all pool') \<subseteq> insert tx (known (all p1)))"
  proof (cases "map_of (pending p1) a")
    case None
    then show ?thesis using new by (simp add: rest_def at_acct_def)
  next
    case (Some l)
    note l = lists_ok_at[OF pool_invD(1)[OF p1(2)] Some]
    show ?thesis
    proof (cases "list_Contains l (Nonce tx)")
      case True
      then show ?thesis using replace_pending_ok[OF p1(2) a none1 Some, of now ?isLocal] Some
        by (fastforce simp: rest_def split: sum.splits)
    next
      case False
      then have "\<forall>t\<in>set (at_acct (pending p1) a). Nonce t \<noteq> Nonce tx"
        using l by (simp add: list_Contains_iff)
      then show ?thesis using new False Some by (simp add: rest_def)
    qed
  qed
  then obtain p2 r where p2: "rest = Some (p2, r)" "pool_inv sender p2" "same_chain p1 p2"
    "case r of Inl e \<Rightarrow> known (all p2) \<subseteq> known (all p1)
      | Inr _ \<Rightarrow> tx \<in> known (all p2) \<and> known (all p2) \<subseteq> insert tx (known (all p1))" by blast
  have "same_chain pool p2" using same_chain_trans[OF _ p2(3), of pool] p1(3) by simp
  then show ?thesis using eq p1 p2 by (cases e; cases r) auto
qed

end
