(* ===== verification/PoolOps.thy ===== *)
theory PoolOps
  imports PoolAdd
begin

text \<open>
  The operations other components call on the pool: batches of transactions, a new minimum tip,
  the eviction of idle accounts, and the queries. Every sequence of them keeps the invariant.
\<close>

lemma addTxsLocked_ok:
  assumes "pool_inv sender pool"
  shows "\<exists>pool' errs d'. addTxsLocked sender now ts local pool d = Some (pool', errs, d') \<and> pool_inv sender pool' \<and>
     same_chain pool pool' \<and> length errs = length ts \<and> known (all pool') \<subseteq> known (all pool) \<union> set ts"
  using assms
proof (induction ts arbitrary: pool d)
  case (Cons t ts)
  from add_tx_ok[OF Cons.prems, of now t local] obtain p1 r where
    p1: "add_tx sender now t local pool = Some (p1, r)" "pool_inv sender p1" "same_chain pool p1"
      "known (all p1) \<subseteq> insert t (known (all pool))" by (fastforce split: sum.splits)
  define e where "e = (case r of Inl e \<Rightarrow> (Some e, d) | Inr b \<Rightarrow> (None, if b then d else as_addTx sender t d))"
  from Cons.IH[OF p1(2), of "snd e"] obtain p2 errs d2 where
    p2: "addTxsLocked sender now ts local p1 (snd e) = Some (p2, errs, d2)" "pool_inv sender p2" "same_chain p1 p2"
      "length errs = length ts" "known (all p2) \<subseteq> known (all p1) \<union> set ts" by blast
  have "addTxsLocked sender now (t # ts) local pool d = Some (p2, fst e # errs, d2)"
    using p1(1) p2(1) by (simp add: e_def[symmetric] split_def)
  then show ?case using p1 p2 same_chain_trans[OF p1(3) p2(3)] by auto
qed simp

lemma fill_slots_ok:
  assumes "length ns = length (filter (\<lambda>e. e = None) es)"
  shows "\<exists>r. fill_slots es ns = Some r \<and> length r = length es \<and>
     (\<forall>i<length es. es ! i \<noteq> None \<longrightarrow> r ! i = es ! i) \<and>
     map (\<lambda>i. r ! i) (filter (\<lambda>i. es ! i = None) [0..<length es]) = ns"
  using assms
proof (induction es ns rule: fill_slots.induct)
  case (1 errs)
  then have "\<forall>i<length errs. errs ! i \<noteq> None" by (auto simp: filter_empty_conv)
  then have "filter (\<lambda>i. errs ! i = None) [0..<length errs] = []" by (auto simp: filter_empty_conv)
  then show ?case by simp
next
  case (3 e es n ns)
  then obtain r where r: "fill_slots es (n # ns) = Some r" "length r = length es"
    "\<forall>i<length es. es ! i \<noteq> None \<longrightarrow> r ! i = es ! i" "map ((!) r) (filter (\<lambda>i. es ! i = None) [0..<length es]) = n # ns" by auto
  have "map ((!) (Some e # r)) (filter (\<lambda>i. (Some e # es) ! i = None) [0..<length (Some e # es)]) = n # ns"
    using r(4) by (simp add: upt_conv_Cons map_Suc_upt[symmetric] filter_map comp_def del: upt_Suc map_Suc_upt)
  then show ?case using r by (auto simp: nth_Cons split: nat.splits)
next
  case (4 es n ns)
  then obtain r where r: "fill_slots es ns = Some r" "length r = length es"
    "\<forall>i<length es. es ! i \<noteq> None \<longrightarrow> r ! i = es ! i" "map ((!) r) (filter (\<lambda>i. es ! i = None) [0..<length es]) = ns" by auto
  have "map ((!) (n # r)) (filter (\<lambda>i. (None # es) ! i = None) [0..<length (None # es)]) = n # ns"
    using r(4) by (simp add: upt_conv_Cons map_Suc_upt[symmetric] filter_map comp_def del: upt_Suc map_Suc_upt)
  then show ?case using r by (auto simp: nth_Cons split: nat.splits)
qed simp

lemma addTxs_ok:
  assumes "pool_inv sender pool"
  shows "\<exists>pool' errs d. addTxs sender now ts local pool = Some (pool', errs, d) \<and> pool_inv sender pool' \<and>
     same_chain pool pool' \<and> length errs = length ts \<and> known (all pool') \<subseteq> known (all pool) \<union> set ts"
proof -
  let ?errs = "map (pre_check sender local pool) ts" and ?news = "filter (\<lambda>tx. pre_check sender local pool tx = None) ts"
  show ?thesis
  proof (cases "?news = []")
    case True
    then show ?thesis using assms by (auto simp: addTxs_def Let_def)
  next
    case False
    from addTxsLocked_ok[OF assms, of now ?news local "newAccountSet []"] obtain p1 ne d where
      p1: "addTxsLocked sender now ?news local pool (newAccountSet []) = Some (p1, ne, d)" "pool_inv sender p1"
        "same_chain pool p1" "length ne = length ?news" "known (all p1) \<subseteq> known (all pool) \<union> set ?news" by blast
    have "length ne = length (filter (\<lambda>e. e = None) ?errs)" using p1(4) by (simp add: filter_map comp_def)
    from fill_slots_ok[OF this] obtain r where "fill_slots ?errs ne = Some r" "length r = length ts" by auto
    then show ?thesis using p1 False by (auto simp: addTxs_def Let_def)
  qed
qed

lemma SetGasTip_ok:
  assumes "pool_inv sender pool"
  shows "\<exists>pool'. SetGasTip sender now tip pool = Some pool' \<and> pool_inv sender pool' \<and> gasTip pool' = tip \<and>
     known (all pool') \<subseteq> known (all pool)"
proof (cases "tip > gasTip pool")
  case True
  let ?p = "pool\<lparr>gasTip := tip\<rparr>" and ?drop = "lookup_RemotesBelowTip tip (all pool)"
  have "pool_inv sender ?p" using assms by simp
  from remove_txs_ok[OF this, of now False ?drop] obtain p1 where
    p1: "remove_txs sender now False ?drop ?p = Some p1" "pool_inv sender p1" "same_env ?p p1" "known (all p1) \<subseteq> known (all pool)"
    by auto
  from drop_priced_inv[OF p1(2), of "length ?drop"] obtain p where
    "drop_priced (length ?drop) p1 = Some (p1\<lparr>priced := p\<rparr>)" "pool_inv sender (p1\<lparr>priced := p\<rparr>)" by blast
  then show ?thesis using p1 True by (auto simp: SetGasTip_def Let_def same_env_def)
next
  case False
  then show ?thesis using assms by (auto simp: SetGasTip_def Let_def)
qed

text \<open>Flattening a list only fills its cache.\<close>

lemma list_Flatten_ok:
  assumes "list_inv l"
  shows "\<exists>l'. list_Flatten l = (l', lst l) \<and> list_inv l' \<and> strict l' = strict l \<and> lst l' = lst l"
proof -
  have wf: "sm_wf (txs l)" using assms by (simp add: list_inv_def)
  from flatten_ok[OF wf] obtain m' where m': "flatten (txs l) = (m', sm_list (txs l))" "sm_wf m'" "sm_list m' = sm_list (txs l)" by blast
  then show ?thesis using assms by (simp add: list_Flatten_def sortedMap_Flatten_def list_inv_def lst_def)
qed

lemma inv_queue_same:
  assumes "pool_inv_on sender X Y pool" "lists_ok sender False q" "at_acct q = at_acct (queue pool)"
  shows "pool_inv_on sender X Y (pool\<lparr>queue := q\<rparr>)"
  using assms by (simp add: pool_inv_on_def listed_def)

lemma inv_pending_same:
  assumes "pool_inv_on sender X Y pool" "lists_ok sender True p" "at_acct p = at_acct (pending pool)"
  shows "pool_inv_on sender X Y (pool\<lparr>pending := p\<rparr>)"
  using assms by (simp add: pool_inv_on_def listed_def)

lemma flatten_at_ok:
  assumes "lists_ok sender s m" "flatten_at a m = (m', ts)"
  shows "lists_ok sender s m'" "at_acct m' = at_acct m" "ts = at_acct m a"
proof -
  have "lists_ok sender s m' \<and> at_acct m' = at_acct m \<and> ts = at_acct m a"
  proof (cases "map_of m a")
    case None
    then show ?thesis using assms by (simp add: flatten_at_def at_acct_def)
  next
    case (Some l)
    note l = lists_ok_at[OF assms(1) Some]
    from list_Flatten_ok[OF l[THEN conjunct1]] obtain l' where
      l': "list_Flatten l = (l', lst l)" "list_inv l'" "strict l' = strict l" "lst l' = lst l" by blast
    have "m' = gm_put a l' m" "ts = lst l" using assms(2) Some l' by (auto simp: flatten_at_def)
    moreover have "\<forall>t\<in>set (lst l'). sender t = Some a" using lists_ok_sender[OF assms(1), of _ a] l l' by auto
    ultimately show ?thesis using l l' lists_ok_put[OF assms(1), of l' a] by auto
  qed
  then show "lists_ok sender s m'" "at_acct m' = at_acct m" "ts = at_acct m a" by auto
qed

lemma evict_ok:
  assumes "pool_inv sender pool"
  shows "\<exists>pool'. evict sender now as pool = Some pool' \<and> pool_inv sender pool' \<and> same_env pool pool' \<and>
     known (all pool') \<subseteq> known (all pool)"
  using assms
proof (induction as arbitrary: pool)
  case (Cons a as)
  obtain q ts where f: "flatten_at a (queue pool) = (q, ts)" by (cases "flatten_at a (queue pool)")
  note fl = flatten_at_ok[OF pool_invD(2)[OF Cons.prems] f]
  have "pool_inv sender (pool\<lparr>queue := q\<rparr>)" by (rule inv_queue_same[OF Cons.prems fl(1,2)])
  from remove_txs_ok[OF this, of now True ts] obtain p1 where
    p1: "remove_txs sender now True ts (pool\<lparr>queue := q\<rparr>) = Some p1" "pool_inv sender p1" "same_env (pool\<lparr>queue := q\<rparr>) p1"
      "known (all p1) \<subseteq> known (all pool)" by auto
  have env: "same_env pool p1" using p1(3) by (simp add: same_env_def)
  show ?case using Cons.IH[OF p1(2)] Cons.IH[OF Cons.prems] f p1(1,4) same_env_trans[OF env] by fastforce
qed simp


lemma flatten_lists_ok:
  assumes "lists_ok sender s m"
  shows "lists_ok sender s (flatten_lists m)" "at_acct (flatten_lists m) = at_acct m"
    "\<And>a. map_of (map (\<lambda>(a, l). (a, snd (list_Flatten l))) m) a = map_option lst (map_of m a)"
proof -
  have mo: "map_of (map (\<lambda>(a, l). (a, f l)) m) a = map_option f (map_of m a)" for f :: "txlist \<Rightarrow> 'b" and a
    by (induction m) auto
  have fl: "snd (list_Flatten l) = lst l" "list_inv (fst (list_Flatten l))" "strict (fst (list_Flatten l)) = strict l"
    "lst (fst (list_Flatten l)) = lst l" if "map_of m a = Some l" for a l
    using list_Flatten_ok[of l] lists_ok_at[OF assms that] by auto
  have keys: "gm_wf (flatten_lists m)" using assms by (simp add: flatten_lists_def split_def comp_def lists_ok_def)
  have get: "map_of (flatten_lists m) a = map_option (\<lambda>l. fst (list_Flatten l)) (map_of m a)" for a
    by (simp add: flatten_lists_def mo)
  show "lists_ok sender s (flatten_lists m)"
    using assms keys fl unfolding lists_ok_def get by auto
  show "at_acct (flatten_lists m) = at_acct m"
    using fl by (auto simp: at_acct_def get fun_eq_iff split: option.split)
  show "map_of (map (\<lambda>(a, l). (a, snd (list_Flatten l))) m) a = map_option lst (map_of m a)" for a
    using fl(1)[of a] by (cases "map_of m a") (auto simp: mo)
qed

lemma New_ok: "pool_inv sender (New cfg locs head nonce0 balance0)"
  by (simp add: pool_inv_on_def New_def lists_ok_def at_acct_def listed_def known_def newLookup_def lk_wf_new[unfolded newLookup_def]
      lookup_Get_def priced_ok_def newPricedList_def heap_ok_def is_heap_def remote_txs_def)


subsection \<open>A pool with three pending transactions\<close>

definition sample_header :: Header where
  "sample_header = \<lparr>ParentHash = 0, hTime = 0, Number = 1, Coinbase = 0, StateRoot = 0, TxRoot = 0, ReceiptRoot = 0,
     hBloom = 0, hBaseFee = Some 1, hGasLimit = 30000000, hGasUsed = 0, Extra = []\<rparr>"

definition sample_known :: lookup where
  "sample_known = lookup_Add (sample_at 7 0) True (lookup_Add (sample_at 6 9) True (lookup_Add (sample_at 5 0) True newLookup))"

definition sample_pool :: LegacyPool where
  "sample_pool = (New DefaultConfig [] sample_header (\<lambda>_. 5) (\<lambda>_. 10000000))
     \<lparr>pending := [(1, sample_list3)], all := sample_known\<rparr>"

lemma sample_known_ok: "lk_wf sample_known" "known sample_known = {sample_at 5 0, sample_at 6 9, sample_at 7 0}"
  "remote_txs sample_known = []"
proof -
  let ?k1 = "lookup_Add (sample_at 5 0) True newLookup"
  let ?k2 = "lookup_Add (sample_at 6 9) True ?k1"
  have none: "lookup_Get newLookup h = None" "known newLookup = {}" for h by (simp_all add: newLookup_def lookup_Get_def known_def)
  note k1 = lookup_Add_ok(1,2)[OF lk_wf_new none(1), of "sample_at 5 0" True]
  have g1: "lookup_Get ?k1 (tx_hash (sample_at 6 9)) = None" "lookup_Get ?k1 (tx_hash (sample_at 7 0)) = None"
    by (simp_all add: k1(2) none)
  note k2 = lookup_Add_ok(1,2)[OF k1(1) g1(1), of True]
  have g2: "lookup_Get ?k2 (tx_hash (sample_at 7 0)) = None" using g1(2) by (simp add: k2(2))
  show "lk_wf sample_known" unfolding sample_known_def by (rule lookup_Add_ok(1)[OF k2(1) g2])
  show "known sample_known = {sample_at 5 0, sample_at 6 9, sample_at 7 0}"
    unfolding sample_known_def
    using known_Add[OF g2 k2(1), of True] known_Add[OF g1(1) k1(1), of True] known_Add[OF none(1) lk_wf_new, of "sample_at 5 0" True] none(2)
    by auto
  show "remote_txs sample_known = []" by (simp add: sample_known_def lookup_Add_def newLookup_def remote_txs_def Let_def)
qed

lemma sample_pool_ok: "pool_inv (\<lambda>_. Some 1) sample_pool"
proof -
  have "lists_ok (\<lambda>_. Some 1) True (pending sample_pool)" "lists_ok (\<lambda>_. Some 1) False (queue sample_pool)"
    by (auto simp: lists_ok_def sample_pool_def New_def sample_list3_ok split: if_splits)
  moreover have "listed (pending sample_pool) = {sample_at 5 0, sample_at 6 9, sample_at 7 0}" "listed (queue sample_pool) = {}"
    by (auto simp: listed_def at_acct_def sample_pool_def New_def sample_list3_ok split: if_splits option.splits)
  moreover have "priced_ok (priced sample_pool)"
    by (simp add: sample_pool_def New_def priced_ok_def newPricedList_def heap_ok_def is_heap_def)
  ultimately show ?thesis
    using sample_known_ok by (simp add: pool_inv_on_def sample_pool_def New_def at_acct_def)
qed

subsection \<open>Properties\<close>



text \<open>
  C7. Removing a pending transaction by its hash forgets it and no other, keeps the transactions of its
  account with lower nonces pending, moves exactly those with higher nonces to the account's queue,
  touches no other account, and returns how many left the pending list.
\<close>

theorem removeTx_requeues_later:
  assumes "pool_inv sender pool" "tx \<in> set (at_acct (pending pool) a)"
  shows "\<exists>pool' n. removeTx sender now (tx_hash tx) outofbound pool = Some (pool', n) \<and> pool_inv sender pool' \<and>
     known (all pool') = known (all pool) - {tx} \<and>
     at_acct (pending pool') = (at_acct (pending pool))(a := filter (\<lambda>t. Nonce t < Nonce tx) (at_acct (pending pool) a)) \<and>
     (\<forall>c. c \<noteq> a \<longrightarrow> at_acct (queue pool') c = at_acct (queue pool) c) \<and>
     set (at_acct (queue pool') a) = set (at_acct (queue pool) a) \<union> {t \<in> set (at_acct (pending pool) a). Nonce tx < Nonce t} \<and>
     n = int (length (at_acct (pending pool) a)) - int (length (at_acct (pending pool') a))"
proof -
  let ?P = "at_acct (pending pool) a"
  from removeTx_pending[OF assms, of now outofbound] obtain pool' where r:
    "removeTx sender now (tx_hash tx) outofbound pool = Some (pool', 1 + int (length (filter (\<lambda>t. Nonce tx < Nonce t) ?P)))"
    "pool_inv sender pool'" "all pool' = lookup_Remove (tx_hash tx) (all pool)"
    "at_acct (pending pool') = (at_acct (pending pool))(a := filter (\<lambda>t. Nonce t < Nonce tx) ?P)"
    "\<forall>c. c \<noteq> a \<longrightarrow> at_acct (queue pool') c = at_acct (queue pool) c"
    "set (at_acct (queue pool') a) = {t \<in> set ?P. Nonce tx < Nonce t} \<union> set (at_acct (queue pool) a)" by auto
  note i = pool_invD[OF assms(1)]
  have "length ?P = length (filter (\<lambda>t. Nonce t < Nonce tx) ?P) + (1 + length (filter (\<lambda>t. Nonce tx < Nonce t) ?P))"
    using arg_cong[OF by_nonce_at[OF lists_ok_by_nonce[OF i(1)] assms(2)], of length] by simp
  moreover have "tx \<in> known (all pool)" using i(5) listedI[OF assms(2)] by auto
  ultimately show ?thesis using r known_Remove_tx[OF i(4)] by (intro exI[of _ pool']) auto
qed

theorem removeTx_requeues_later_witness:
  "\<exists>pool' n. removeTx (\<lambda>_. Some 1) 7 6 True sample_pool = Some (pool', n) \<and> n = 2 \<and>
     at_acct (pending pool') 1 = [sample_at 5 0] \<and> set (at_acct (queue pool') 1) = {sample_at 7 0}"
proof -
  have P: "at_acct (pending sample_pool) 1 = [sample_at 5 0, sample_at 6 9, sample_at 7 0]" "at_acct (queue sample_pool) 1 = []"
    by (simp_all add: sample_pool_def New_def at_acct_def sample_list3_ok)
  show ?thesis
    using removeTx_requeues_later[OF sample_pool_ok, of "sample_at 6 9" 1 7 True] by (auto simp: P)
qed

text \<open>
  C27. \<open>Status\<close> answers by the contents of the lists: pending when a pending list holds the transaction with
  that hash, queued when a queue does, unknown otherwise.
\<close>

theorem Status_exact:
  assumes "pool_inv sender pool"
  shows "Status sender pool h =
     (if h \<in> tx_hash ` listed (pending pool) then TxStatusPending
      else if h \<in> tx_hash ` listed (queue pool) then TxStatusQueued else TxStatusUnknown)"
proof -
  note i = pool_invD[OF assms]
  have items: "map_of (items (txs l)) n \<noteq> None \<longleftrightarrow> (\<exists>t\<in>set (lst l). Nonce t = n)" if "list_inv l" for l n
    using list_Contains_iff[OF that, of n] by (simp add: list_Contains_def sortedMap_Get_def)
  have inl: "(case map_of m a of None \<Rightarrow> False | Some l \<Rightarrow> map_of (items (txs l)) n \<noteq> None) \<longleftrightarrow> (\<exists>t\<in>set (at_acct m a). Nonce t = n)"
    if "lists_ok sender s m" for m a n s
    using lists_ok_at[OF that, of a] by (cases "map_of m a") (simp_all add: items at_acct_def del: not_None_eq)
  show ?thesis
  proof (cases "lookup_Get (all pool) h")
    case None
    then have "h \<notin> tx_hash ` known (all pool)" by (auto simp: known_def)
    then show ?thesis using None i(5) by (auto simp: Status_def)
  next
    case (Some tx)
    then have tx: "tx \<in> known (all pool)" "tx_hash tx = h" using lookup_Get_known[OF i(4)] by auto
    have uniq: "t = tx" if "t \<in> known (all pool)" "tx_hash t = h" for t using known_inj that tx by metis
    have img: "h \<in> tx_hash ` S \<longleftrightarrow> tx \<in> S" if "S \<subseteq> known (all pool)" for S using uniq tx(2) that by blast
    have P: "h \<in> tx_hash ` listed (pending pool) \<longleftrightarrow> tx \<in> listed (pending pool)"
      and Q: "h \<in> tx_hash ` listed (queue pool) \<longleftrightarrow> tx \<in> listed (queue pool)" by (rule img, simp add: i(5))+
    obtain a where a: "sender tx = Some a" using tx(1) i(5) listed_iff[OF i(1)] listed_iff[OF i(2)] by auto
    have inP: "tx \<in> listed (pending pool) \<longleftrightarrow> (\<exists>t\<in>set (at_acct (pending pool) a). Nonce t = Nonce tx)"
      using listed_iff[OF i(1), of tx] a i(3)[of _ a tx] tx(1) i(5) listed_iff[OF i(2), of tx] by auto
    have inQ: "tx \<in> listed (queue pool) \<longleftrightarrow> (\<exists>t\<in>set (at_acct (queue pool) a). Nonce t = Nonce tx)"
      if "tx \<notin> listed (pending pool)"
      using listed_iff[OF i(2), of tx] a tx(1) i(5) that by auto
    have eq: "Status sender pool h = (if \<exists>t\<in>set (at_acct (pending pool) a). Nonce t = Nonce tx then TxStatusPending
        else if \<exists>t\<in>set (at_acct (queue pool) a). Nonce t = Nonce tx then TxStatusQueued else TxStatusUnknown)"
      unfolding Status_def Some Let_def using inl[OF i(1), of "Nonce tx" a] inl[OF i(2), of "Nonce tx" a] a
      by (simp add: from_of_def)
    show ?thesis unfolding eq P Q using inP inQ by auto
  qed
qed

theorem Status_exact_witness: "Status (\<lambda>_. Some 1) sample_pool 6 = TxStatusPending"
proof -
  have "sample_at 6 9 \<in> listed (pending sample_pool)"
    by (auto simp: listed_def at_acct_def sample_pool_def New_def sample_list3_ok intro: exI[of _ 1])
  then have "6 \<in> tx_hash ` listed (pending sample_pool)" by (force intro: image_eqI[of _ _ "sample_at 6 9"])
  then show ?thesis using Status_exact[OF sample_pool_ok, of 6] by simp
qed



end
