(* ===== verification/Opcodes.thy ===== *)
theory Opcodes
  imports Pangu_Prelude
begin

text \<open>
  The instruction codes and their names (\<open>core/evm/opcodes.go\<close>): both tables of the source, in its
  order, with the codes written as numbers.
\<close>

definition IsPush :: "u8 \<Rightarrow> bool" where
  "IsPush op \<longleftrightarrow> 0x60 \<le> op \<and> op \<le> 0x7f"

definition opCodeToString :: "(u8, string) gomap" where
  "opCodeToString = [
     (0x00, ''STOP''), (0x01, ''ADD''), (0x02, ''MUL''), (0x03, ''SUB''),
     (0x04, ''DIV''), (0x05, ''SDIV''), (0x06, ''MOD''), (0x07, ''SMOD''),
     (0x0a, ''EXP''), (0x19, ''NOT''), (0x10, ''LT''), (0x11, ''GT''),
     (0x12, ''SLT''), (0x13, ''SGT''), (0x14, ''EQ''), (0x15, ''ISZERO''),
     (0x0b, ''SIGNEXTEND''), (0x16, ''AND''), (0x17, ''OR''), (0x18, ''XOR''),
     (0x1a, ''BYTE''), (0x1b, ''SHL''), (0x1c, ''SHR''), (0x1d, ''SAR''),
     (0x08, ''ADDMOD''), (0x09, ''MULMOD''), (0x20, ''KECCAK256''), (0x30, ''ADDRESS''),
     (0x31, ''BALANCE''), (0x32, ''ORIGIN''), (0x33, ''CALLER''), (0x34, ''CALLVALUE''),
     (0x35, ''CALLDATALOAD''), (0x36, ''CALLDATASIZE''), (0x37, ''CALLDATACOPY''), (0x38, ''CODESIZE''),
     (0x39, ''CODECOPY''), (0x3a, ''GASPRICE''), (0x3b, ''EXTCODESIZE''), (0x3c, ''EXTCODECOPY''),
     (0x3d, ''RETURNDATASIZE''), (0x3e, ''RETURNDATACOPY''), (0x3f, ''EXTCODEHASH''), (0x40, ''BLOCKHASH''),
     (0x41, ''COINBASE''), (0x42, ''TIMESTAMP''), (0x43, ''NUMBER''), (0x44, ''DIFFICULTY''),
     (0x45, ''GASLIMIT''), (0x46, ''CHAINID''), (0x47, ''SELFBALANCE''), (0x48, ''BASEFEE''),
     (0x49, ''BLOBHASH''), (0x50, ''POP''), (0x51, ''MLOAD''), (0x52, ''MSTORE''),
     (0x53, ''MSTORE8''), (0x54, ''SLOAD''), (0x55, ''SSTORE''), (0x56, ''JUMP''),
     (0x57, ''JUMPI''), (0x58, ''PC''), (0x59, ''MSIZE''), (0x5a, ''GAS''),
     (0x5b, ''JUMPDEST''), (0x5c, ''TLOAD''), (0x5d, ''TSTORE''), (0x5e, ''MCOPY''),
     (0x5f, ''PUSH0''), (0x60, ''PUSH1''), (0x61, ''PUSH2''), (0x62, ''PUSH3''),
     (0x63, ''PUSH4''), (0x64, ''PUSH5''), (0x65, ''PUSH6''), (0x66, ''PUSH7''),
     (0x67, ''PUSH8''), (0x68, ''PUSH9''), (0x69, ''PUSH10''), (0x6a, ''PUSH11''),
     (0x6b, ''PUSH12''), (0x6c, ''PUSH13''), (0x6d, ''PUSH14''), (0x6e, ''PUSH15''),
     (0x6f, ''PUSH16''), (0x70, ''PUSH17''), (0x71, ''PUSH18''), (0x72, ''PUSH19''),
     (0x73, ''PUSH20''), (0x74, ''PUSH21''), (0x75, ''PUSH22''), (0x76, ''PUSH23''),
     (0x77, ''PUSH24''), (0x78, ''PUSH25''), (0x79, ''PUSH26''), (0x7a, ''PUSH27''),
     (0x7b, ''PUSH28''), (0x7c, ''PUSH29''), (0x7d, ''PUSH30''), (0x7e, ''PUSH31''),
     (0x7f, ''PUSH32''), (0x80, ''DUP1''), (0x81, ''DUP2''), (0x82, ''DUP3''),
     (0x83, ''DUP4''), (0x84, ''DUP5''), (0x85, ''DUP6''), (0x86, ''DUP7''),
     (0x87, ''DUP8''), (0x88, ''DUP9''), (0x89, ''DUP10''), (0x8a, ''DUP11''),
     (0x8b, ''DUP12''), (0x8c, ''DUP13''), (0x8d, ''DUP14''), (0x8e, ''DUP15''),
     (0x8f, ''DUP16''), (0x90, ''SWAP1''), (0x91, ''SWAP2''), (0x92, ''SWAP3''),
     (0x93, ''SWAP4''), (0x94, ''SWAP5''), (0x95, ''SWAP6''), (0x96, ''SWAP7''),
     (0x97, ''SWAP8''), (0x98, ''SWAP9''), (0x99, ''SWAP10''), (0x9a, ''SWAP11''),
     (0x9b, ''SWAP12''), (0x9c, ''SWAP13''), (0x9d, ''SWAP14''), (0x9e, ''SWAP15''),
     (0x9f, ''SWAP16''), (0xa0, ''LOG0''), (0xa1, ''LOG1''), (0xa2, ''LOG2''),
     (0xa3, ''LOG3''), (0xa4, ''LOG4''), (0xf0, ''CREATE''), (0xf1, ''CALL''),
     (0xf3, ''RETURN''), (0xf2, ''CALLCODE''), (0xf4, ''DELEGATECALL''), (0xf5, ''CREATE2''),
     (0xfa, ''STATICCALL''), (0xfd, ''REVERT''), (0xfe, ''INVALID''), (0xff, ''SELFDESTRUCT'')]"

definition stringToOp :: "(string, u8) gomap" where
  "stringToOp = [
     (''STOP'', 0x00), (''ADD'', 0x01), (''MUL'', 0x02), (''SUB'', 0x03),
     (''DIV'', 0x04), (''SDIV'', 0x05), (''MOD'', 0x06), (''SMOD'', 0x07),
     (''EXP'', 0x0a), (''NOT'', 0x19), (''LT'', 0x10), (''GT'', 0x11),
     (''SLT'', 0x12), (''SGT'', 0x13), (''EQ'', 0x14), (''ISZERO'', 0x15),
     (''SIGNEXTEND'', 0x0b), (''AND'', 0x16), (''OR'', 0x17), (''XOR'', 0x18),
     (''BYTE'', 0x1a), (''SHL'', 0x1b), (''SHR'', 0x1c), (''SAR'', 0x1d),
     (''ADDMOD'', 0x08), (''MULMOD'', 0x09), (''KECCAK256'', 0x20), (''ADDRESS'', 0x30),
     (''BALANCE'', 0x31), (''ORIGIN'', 0x32), (''CALLER'', 0x33), (''CALLVALUE'', 0x34),
     (''CALLDATALOAD'', 0x35), (''CALLDATASIZE'', 0x36), (''CALLDATACOPY'', 0x37), (''CHAINID'', 0x46),
     (''BASEFEE'', 0x48), (''BLOBHASH'', 0x49), (''DELEGATECALL'', 0xf4), (''STATICCALL'', 0xfa),
     (''CODESIZE'', 0x38), (''CODECOPY'', 0x39), (''GASPRICE'', 0x3a), (''EXTCODESIZE'', 0x3b),
     (''EXTCODECOPY'', 0x3c), (''RETURNDATASIZE'', 0x3d), (''RETURNDATACOPY'', 0x3e), (''EXTCODEHASH'', 0x3f),
     (''BLOCKHASH'', 0x40), (''COINBASE'', 0x41), (''TIMESTAMP'', 0x42), (''NUMBER'', 0x43),
     (''DIFFICULTY'', 0x44), (''GASLIMIT'', 0x45), (''SELFBALANCE'', 0x47), (''POP'', 0x50),
     (''MLOAD'', 0x51), (''MSTORE'', 0x52), (''MSTORE8'', 0x53), (''SLOAD'', 0x54),
     (''SSTORE'', 0x55), (''JUMP'', 0x56), (''JUMPI'', 0x57), (''PC'', 0x58),
     (''MSIZE'', 0x59), (''GAS'', 0x5a), (''JUMPDEST'', 0x5b), (''TLOAD'', 0x5c),
     (''TSTORE'', 0x5d), (''MCOPY'', 0x5e), (''PUSH0'', 0x5f), (''PUSH1'', 0x60),
     (''PUSH2'', 0x61), (''PUSH3'', 0x62), (''PUSH4'', 0x63), (''PUSH5'', 0x64),
     (''PUSH6'', 0x65), (''PUSH7'', 0x66), (''PUSH8'', 0x67), (''PUSH9'', 0x68),
     (''PUSH10'', 0x69), (''PUSH11'', 0x6a), (''PUSH12'', 0x6b), (''PUSH13'', 0x6c),
     (''PUSH14'', 0x6d), (''PUSH15'', 0x6e), (''PUSH16'', 0x6f), (''PUSH17'', 0x70),
     (''PUSH18'', 0x71), (''PUSH19'', 0x72), (''PUSH20'', 0x73), (''PUSH21'', 0x74),
     (''PUSH22'', 0x75), (''PUSH23'', 0x76), (''PUSH24'', 0x77), (''PUSH25'', 0x78),
     (''PUSH26'', 0x79), (''PUSH27'', 0x7a), (''PUSH28'', 0x7b), (''PUSH29'', 0x7c),
     (''PUSH30'', 0x7d), (''PUSH31'', 0x7e), (''PUSH32'', 0x7f), (''DUP1'', 0x80),
     (''DUP2'', 0x81), (''DUP3'', 0x82), (''DUP4'', 0x83), (''DUP5'', 0x84),
     (''DUP6'', 0x85), (''DUP7'', 0x86), (''DUP8'', 0x87), (''DUP9'', 0x88),
     (''DUP10'', 0x89), (''DUP11'', 0x8a), (''DUP12'', 0x8b), (''DUP13'', 0x8c),
     (''DUP14'', 0x8d), (''DUP15'', 0x8e), (''DUP16'', 0x8f), (''SWAP1'', 0x90),
     (''SWAP2'', 0x91), (''SWAP3'', 0x92), (''SWAP4'', 0x93), (''SWAP5'', 0x94),
     (''SWAP6'', 0x95), (''SWAP7'', 0x96), (''SWAP8'', 0x97), (''SWAP9'', 0x98),
     (''SWAP10'', 0x99), (''SWAP11'', 0x9a), (''SWAP12'', 0x9b), (''SWAP13'', 0x9c),
     (''SWAP14'', 0x9d), (''SWAP15'', 0x9e), (''SWAP16'', 0x9f), (''LOG0'', 0xa0),
     (''LOG1'', 0xa1), (''LOG2'', 0xa2), (''LOG3'', 0xa3), (''LOG4'', 0xa4),
     (''CREATE'', 0xf0), (''CREATE2'', 0xf5), (''CALL'', 0xf1), (''RETURN'', 0xf3),
     (''CALLCODE'', 0xf2), (''REVERT'', 0xfd), (''INVALID'', 0xfe), (''SELFDESTRUCT'', 0xff)]"

text \<open>The name of an undefined code is \<open>opcode 0x.. not defined\<close>; here the number is kept as the code.\<close>

datatype op_name = Named string | NotDefined u8

definition op_String :: "u8 \<Rightarrow> op_name" where
  "op_String op =
     (let str = (case map_of opCodeToString op of Some s \<Rightarrow> s | None \<Rightarrow> []) in
      if length str = 0 then NotDefined op else Named str)"

definition StringToOp :: "string \<Rightarrow> u8" where
  "StringToOp str = (case map_of stringToOp str of Some op \<Rightarrow> op | None \<Rightarrow> 0)"

lemma names_inverse:
  "list_all (\<lambda>(op, n). map_of stringToOp n = Some op) opCodeToString"
  by code_simp

lemma op_String_named:
  assumes "op_String op = Named n"
  shows "(op, n) \<in> set opCodeToString"
  using assms by (auto simp: op_String_def Let_def split: option.splits if_splits dest: map_of_SomeD)

text \<open>
  C29. The names of instructions are a faithful notation: a name printed by \<open>String\<close> is read back by
  \<open>StringToOp\<close> as the same instruction code.
\<close>

theorem opcode_names_round_trip:
  assumes "op_String op = Named n"
  shows "StringToOp n = op"
  using op_String_named[OF assms] names_inverse by (auto simp: list_all_iff StringToOp_def)

theorem opcode_names_round_trip_witness:
  "op_String 0x60 = Named ''PUSH1'' \<and> StringToOp ''PUSH1'' = 0x60"
proof -
  have "op_String 0x60 = Named ''PUSH1''" by (simp add: op_String_def opCodeToString_def)
  then show ?thesis using opcode_names_round_trip by blast
qed

end
