(* ===== verification/EVMBase.thy ===== *)
theory EVMBase
  imports Pangu_Prelude
begin

unbundle bit_operations_syntax

text \<open>
  The data of the virtual machine (\<open>core/evm\<close>): operand stack (\<open>stack.go\<close>, \<open>stack_table.go\<close>),
  byte memory (\<open>memory.go\<close>), size arithmetic (\<open>common.go\<close>), jump destination analysis
  (\<open>analysis.go\<close>) and contracts (\<open>contract.go\<close>).

  \<^item> \<open>uint256.Int\<close> is a 256-bit word: addition, subtraction and multiplication wrap, comparison is
    unsigned. \<open>SetBytes\<close> and \<open>Bytes32\<close> are the big-endian conversions.
  \<^item> The stack is the list of its elements, top first; the Go slice has the top last.
  \<^item> \<open>None\<close> is a run-time panic. A slice expression is a panic when its bounds leave the length of
    the slice; memory is resized before each access, so the spare capacity of a Go slice is never
    reached.
  \<^item> Positions in code are natural numbers: a slice has less than \<open>2 ^ 63\<close> bytes, and the analysis
    never looks further than 33 bytes behind the end, so its \<open>uint64\<close> counter does not wrap.
\<close>

subsection \<open>Big-endian words\<close>

type_synonym u256 = "256 word"

definition SetBytes :: "bytes \<Rightarrow> u256" where
  "SetBytes bs = foldl (\<lambda>w b. w * 256 + ucast b) 0 bs"

definition Bytes32 :: "u256 \<Rightarrow> bytes" where
  "Bytes32 w = map (\<lambda>i. ucast (drop_bit (8 * (31 - i)) w)) [0..<32]"

definition Bytes20 :: "u256 \<Rightarrow> address" where
  "Bytes20 w = ucast w"

definition Uint64 :: "u256 \<Rightarrow> u64" where
  "Uint64 w = ucast w"

definition IsUint64 :: "u256 \<Rightarrow> bool" where
  "IsUint64 w = (uint w < 2 ^ 64)"

definition Uint64WithOverflow :: "u256 \<Rightarrow> u64 \<times> bool" where
  "Uint64WithOverflow w = (Uint64 w, \<not> IsUint64 w)"

lemma foldl_be:
  "foldl (\<lambda>w b. w * 256 + ucast b) 0 (map (\<lambda>i. ucast (drop_bit (8 * (n - 1 - i)) w) :: u8) [0..<n])
     = take_bit (8 * n) (w :: u256)" for w :: u256
proof (induction n arbitrary: w)
  case 0
  show ?case by simp
next
  case (Suc n)
  have shift: "map (\<lambda>i. ucast (drop_bit (8 * (n - i)) w) :: u8) [0..<n]
      = map (\<lambda>i. ucast (drop_bit (8 * (n - 1 - i)) (drop_bit 8 w))) [0..<n]"
    by (auto simp: drop_bit_drop_bit Suc_diff_Suc algebra_simps intro!: arg_cong[where f = "\<lambda>k. ucast (drop_bit k w)"])
  have b: "ucast (ucast w :: u8) = take_bit 8 w" by (intro bit_word_eqI) (auto simp: bit_simps)
  have m: "take_bit (8 * n) (drop_bit 8 w) * 256 = push_bit 8 (take_bit (8 * n) (drop_bit 8 w))"
    by (simp add: push_bit_eq_mult)
  have "take_bit (8 * n) (drop_bit 8 w) * 256 + take_bit 8 w
      = push_bit 8 (take_bit (8 * n) (drop_bit 8 w)) OR take_bit 8 w"
    unfolding m by (intro disjunctive_add bit_eqI) (auto simp: bit_simps)
  also have "\<dots> = take_bit (8 * Suc n) w" by (intro bit_word_eqI) (auto simp: bit_simps)
  finally have "take_bit (8 * n) (drop_bit 8 w) * 256 + ucast (ucast w :: u8) = take_bit (8 * Suc n) w"
    unfolding b .
  moreover have "foldl (\<lambda>w b. w * 256 + ucast b) 0 (map (\<lambda>i. ucast (drop_bit (8 * (n - i)) w) :: u8) [0..<n])
      = take_bit (8 * n) (drop_bit 8 w)"
    unfolding shift by (rule Suc.IH)
  ultimately show ?case by simp
qed

lemma SetBytes_Bytes32: "SetBytes (Bytes32 w) = w"
proof -
  have "take_bit 256 w = w" by (intro bit_word_eqI) (simp add: bit_simps)
  then show ?thesis using foldl_be[of 32 w] by (simp add: SetBytes_def Bytes32_def)
qed

lemma length_Bytes32 [simp]: "length (Bytes32 w) = 32"
  by (simp add: Bytes32_def)

lemma Uint64_exact: "IsUint64 w \<Longrightarrow> uint (Uint64 w) = uint w"
  by (simp add: IsUint64_def Uint64_def unsigned_ucast_eq take_bit_int_eq_self)

lemma unat_Uint64: "IsUint64 w \<Longrightarrow> unat (Uint64 w) = unat w"
  by (simp only: unat_eq_nat_uint Uint64_exact)

lemma sint_small: "unat x < 2 ^ 63 \<Longrightarrow> sint x = int (unat x)" for x :: u64
proof -
  assume "unat x < 2 ^ 63"
  then have "int (unat x) < 2 ^ 63" by (simp only: of_nat_less_numeral_power_cancel_iff)
  moreover have "int (unat x) = uint x" by (simp only: uint_nat)
  ultimately have "uint x < 2 ^ 63" by (simp only:)
  moreover have "- (2 ^ 63) \<le> uint x" by (rule order_trans[OF _ uint_ge_0]) simp
  ultimately have "signed_take_bit 63 (uint x) = uint x" by (intro signed_take_bit_int_eq_self)
  then have "sint x = uint x" by (simp add: sint_uint)
  then show ?thesis by (simp only: uint_nat)
qed

subsection \<open>Errors (\<open>errors.go\<close>)\<close>

text \<open>
  \<open>ErrNew\<close> is an error made by \<open>errors.New\<close> at the place where it is returned: it differs from
  every sentinel of \<open>errors.go\<close>, also from the one with the same message.
\<close>

datatype evm_error =
    ErrOutOfGas
  | ErrCodeStoreOutOfGas
  | ErrDepth
  | ErrInsufficientBalance
  | ErrContractAddressCollision
  | ErrExecutionReverted
  | ErrMaxInitCodeSizeExceeded
  | ErrMaxCodeSizeExceeded
  | ErrInvalidJump
  | ErrWriteProtection
  | ErrReturnDataOutOfBounds
  | ErrGasUintOverflow
  | ErrInvalidCode
  | ErrNonceUintOverflow
  | errStopToken
  | ErrStackUnderflow nat nat
  | ErrStackOverflow nat nat
  | ErrInvalidOpCode u8
  | ErrNew string

subsection \<open>Stack (\<open>stack.go\<close>, \<open>stack_table.go\<close>)\<close>

type_synonym Stack = "u256 list"

definition push :: "u256 \<Rightarrow> Stack \<Rightarrow> Stack" where
  "push d st = d # st"

definition pop :: "Stack \<Rightarrow> (u256 \<times> Stack) option" where
  "pop st = (case st of [] \<Rightarrow> None | x # xs \<Rightarrow> Some (x, xs))"

definition Back :: "nat \<Rightarrow> Stack \<Rightarrow> u256 option" where
  "Back n st = (if n < length st then Some (st ! n) else None)"

definition peek :: "Stack \<Rightarrow> u256 option" where
  "peek st = Back 0 st"

definition poke :: "u256 \<Rightarrow> Stack \<Rightarrow> Stack" where
  "poke v st = st[0 := v]"

definition dup :: "nat \<Rightarrow> Stack \<Rightarrow> Stack option" where
  "dup n st = (if 0 < n \<and> n \<le> length st then Some (push (st ! (n - 1)) st) else None)"

definition swap :: "nat \<Rightarrow> Stack \<Rightarrow> Stack option" where
  "swap n st = (if 0 < n \<and> n \<le> length st then Some (st[n - 1 := st ! 0, 0 := st ! (n - 1)]) else None)"

definition StackLimit :: nat where
  "StackLimit = 1024"

definition maxStack :: "nat \<Rightarrow> nat \<Rightarrow> nat" where
  "maxStack pops pushes = StackLimit + pops - pushes"

definition minStack :: "nat \<Rightarrow> nat \<Rightarrow> nat" where
  "minStack pops pushes = pops"

definition minSwapStack :: "nat \<Rightarrow> nat" where
  "minSwapStack n = minStack n n"

definition maxSwapStack :: "nat \<Rightarrow> nat" where
  "maxSwapStack n = maxStack n n"

definition minDupStack :: "nat \<Rightarrow> nat" where
  "minDupStack n = minStack n (n + 1)"

definition maxDupStack :: "nat \<Rightarrow> nat" where
  "maxDupStack n = maxStack n (n + 1)"

subsection \<open>Memory (\<open>memory.go\<close>)\<close>

record Memory =
  store :: bytes
  lastGasCost :: u64

definition NewMemory :: Memory where
  "NewMemory = \<lparr>store = [], lastGasCost = 0\<rparr>"

definition Len :: "Memory \<Rightarrow> nat" where
  "Len m = length (store m)"

text \<open>\<open>copy(dst[off:off+n], src)\<close>: the built-in copies as many bytes as both sides have.\<close>

definition go_copy :: "nat \<Rightarrow> nat \<Rightarrow> bytes \<Rightarrow> bytes \<Rightarrow> bytes" where
  "go_copy off n src dst = take off dst @ take n src @ drop (off + min n (length src)) dst"

definition Set :: "u64 \<Rightarrow> u64 \<Rightarrow> bytes \<Rightarrow> Memory \<Rightarrow> Memory option" where
  "Set offset size' val m =
     (if size' > 0
      then if unat (offset + size') > Len m then None
           else if offset > offset + size' then None
           else Some (m\<lparr>store := go_copy (unat offset) (unat size') val (store m)\<rparr>)
      else Some m)"

definition Set32 :: "u64 \<Rightarrow> u256 \<Rightarrow> Memory \<Rightarrow> Memory option" where
  "Set32 offset val m =
     (if unat (offset + 32) > Len m then None
      else if unat offset > Len m then None
      else Some (m\<lparr>store := go_copy (unat offset) (min 32 (Len m - unat offset)) (Bytes32 val) (store m)\<rparr>))"

definition Resize :: "u64 \<Rightarrow> Memory \<Rightarrow> Memory" where
  "Resize size' m =
     (if Len m < unat size' then m\<lparr>store := store m @ replicate (unat size' - Len m) 0\<rparr> else m)"

text \<open>The arguments of \<open>GetCopy\<close> and \<open>GetPtr\<close> are \<open>int64\<close>; \<open>nil\<close> is the empty list.\<close>

definition go_slice :: "int \<Rightarrow> int \<Rightarrow> bytes \<Rightarrow> bytes option" where
  "go_slice lo hi s =
     (if 0 \<le> lo \<and> lo \<le> hi \<and> hi \<le> int (length s)
      then Some (take (nat (hi - lo)) (drop (nat lo) s)) else None)"

definition GetCopy :: "int \<Rightarrow> int \<Rightarrow> Memory \<Rightarrow> bytes option" where
  "GetCopy offset size' m =
     (if size' = 0 then Some []
      else if int (Len m) > offset
      then if size' < 0 then None else go_slice offset (offset + size') (store m)
      else Some [])"

definition GetPtr :: "int \<Rightarrow> int \<Rightarrow> Memory \<Rightarrow> bytes option" where
  "GetPtr offset size' m =
     (if size' = 0 then Some []
      else if int (Len m) > offset then go_slice offset (offset + size') (store m)
      else Some [])"

definition mem_Copy :: "u64 \<Rightarrow> u64 \<Rightarrow> u64 \<Rightarrow> Memory \<Rightarrow> Memory option" where
  "mem_Copy dst src len m =
     (if len = 0 then Some m
      else if Len m < unat dst then None
      else do { d \<leftarrow> go_slice (uint src) (uint (src + len)) (store m);
                Some (m\<lparr>store := go_copy (unat dst) (min (length d) (Len m - unat dst)) d (store m)\<rparr>) })"

subsection \<open>Sizes (\<open>common.go\<close>)\<close>

definition calcMemSize64WithUint :: "u256 \<Rightarrow> u64 \<Rightarrow> u64 \<times> bool" where
  "calcMemSize64WithUint off length64 =
     (if length64 = 0 then (0, False)
      else let (offset64, overflow) = Uint64WithOverflow off
           in if overflow then (0, True)
              else let val = offset64 + length64 in (val, val < offset64))"

definition calcMemSize64 :: "u256 \<Rightarrow> u256 \<Rightarrow> u64 \<times> bool" where
  "calcMemSize64 off l = (if \<not> IsUint64 l then (0, True) else calcMemSize64WithUint off (Uint64 l))"

definition RightPadBytes :: "bytes \<Rightarrow> nat \<Rightarrow> bytes" where
  "RightPadBytes bs l = (if l \<le> length bs then bs else bs @ replicate (l - length bs) 0)"

definition getData :: "bytes \<Rightarrow> u64 \<Rightarrow> u64 \<Rightarrow> bytes" where
  "getData dat start size' =
     (let len = of_nat (length dat);
          start = (if start > len then len else start);
          endp = start + size';
          endp = (if endp > len then len else endp)
      in RightPadBytes (take (unat endp - unat start) (drop (unat start) dat)) (unat size'))"

definition MaxUint64 :: u64 where
  "MaxUint64 = 0xffffffffffffffff"

definition toWordSize :: "u64 \<Rightarrow> u64" where
  "toWordSize size' = (if size' > MaxUint64 - 31 then MaxUint64 div 32 + 1 else (size' + 31) div 32)"

fun allZero :: "bytes \<Rightarrow> bool" where
  "allZero [] = True"
| "allZero (b # bs) = (if b \<noteq> 0 then False else allZero bs)"

definition SafeAdd :: "u64 \<Rightarrow> u64 \<Rightarrow> u64 \<times> bool" where
  "SafeAdd x y = (x + y, uint x + uint y \<ge> 2 ^ 64)"

definition SafeMul :: "u64 \<Rightarrow> u64 \<Rightarrow> u64 \<times> bool" where
  "SafeMul x y = (x * y, uint x * uint y \<ge> 2 ^ 64)"

subsection \<open>Jump destination analysis (\<open>analysis.go\<close>)\<close>

type_synonym bitvec = bytes

definition PUSH1 :: u8 where
  "PUSH1 = 0x60"

text \<open>\<open>bits[i] = f(bits[i])\<close>, an index panic out of range.\<close>

definition bits_upd :: "nat \<Rightarrow> (u8 \<Rightarrow> u8) \<Rightarrow> bitvec \<Rightarrow> bitvec option" where
  "bits_upd i f bits = (if i < length bits then Some (bits[i := f (bits ! i)]) else None)"

definition set1 :: "nat \<Rightarrow> bitvec \<Rightarrow> bitvec option" where
  "set1 pos bits = bits_upd (pos div 8) (\<lambda>b. b OR push_bit (pos mod 8) 1) bits"

definition setN :: "16 word \<Rightarrow> nat \<Rightarrow> bitvec \<Rightarrow> bitvec option" where
  "setN flag pos bits =
     (let a = push_bit (pos mod 8) flag in do {
        bits \<leftarrow> bits_upd (pos div 8) (\<lambda>b. b OR ucast a) bits;
        let b = (ucast (drop_bit 8 a) :: u8) in
        if b \<noteq> 0 then bits_upd (pos div 8 + 1) (\<lambda>_. b) bits else Some bits })"

definition set8 :: "nat \<Rightarrow> bitvec \<Rightarrow> bitvec option" where
  "set8 pos bits =
     (let a = push_bit (pos mod 8) 0xFF in do {
        bits \<leftarrow> bits_upd (pos div 8) (\<lambda>b. b OR a) bits;
        bits_upd (pos div 8 + 1) (\<lambda>_. NOT a) bits })"

definition set16 :: "nat \<Rightarrow> bitvec \<Rightarrow> bitvec option" where
  "set16 pos bits =
     (let a = push_bit (pos mod 8) 0xFF in do {
        bits \<leftarrow> bits_upd (pos div 8) (\<lambda>b. b OR a) bits;
        bits \<leftarrow> bits_upd (pos div 8 + 1) (\<lambda>_. 0xFF) bits;
        bits_upd (pos div 8 + 2) (\<lambda>_. NOT a) bits })"

definition codeSegment :: "nat \<Rightarrow> bitvec \<Rightarrow> bool option" where
  "codeSegment pos bits =
     (if pos div 8 < length bits then Some (drop_bit (pos mod 8) (bits ! (pos div 8)) AND 1 = 0) else None)"

text \<open>The two loops over \<open>numbits\<close>: they return the remaining bits and the advanced position.\<close>

function set16_loop :: "nat \<Rightarrow> nat \<Rightarrow> bitvec \<Rightarrow> (nat \<times> nat \<times> bitvec) option" where
  "set16_loop numbits pc bits =
     (if numbits \<ge> 16 then do { bits \<leftarrow> set16 pc bits; set16_loop (numbits - 16) (pc + 16) bits }
      else Some (numbits, pc, bits))"
  by pat_completeness auto
termination by (relation "measure fst") auto
declare set16_loop.simps [simp del]

function set8_loop :: "nat \<Rightarrow> nat \<Rightarrow> bitvec \<Rightarrow> (nat \<times> nat \<times> bitvec) option" where
  "set8_loop numbits pc bits =
     (if numbits \<ge> 8 then do { bits \<leftarrow> set8 pc bits; set8_loop (numbits - 8) (pc + 8) bits }
      else Some (numbits, pc, bits))"
  by pat_completeness auto
termination by (relation "measure fst") auto
declare set8_loop.simps [simp del]

definition set_rest :: "nat \<Rightarrow> nat \<Rightarrow> bitvec \<Rightarrow> (nat \<times> bitvec) option" where
  "set_rest numbits pc bits =
     map_option (Pair (pc + (if 1 \<le> numbits \<and> numbits \<le> 7 then numbits else 0)))
       (if numbits = 1 then set1 pc bits
        else if numbits = 2 then setN 0b11 pc bits
        else if numbits = 3 then setN 0b111 pc bits
        else if numbits = 4 then setN 0b1111 pc bits
        else if numbits = 5 then setN 0b11111 pc bits
        else if numbits = 6 then setN 0b111111 pc bits
        else if numbits = 7 then setN 0b1111111 pc bits
        else Some bits)"

definition set_push :: "nat \<Rightarrow> nat \<Rightarrow> bitvec \<Rightarrow> (nat \<times> bitvec) option" where
  "set_push numbits pc bits = do {
     (numbits, pc, bits) \<leftarrow>
       (if numbits \<ge> 8
        then do { (numbits, pc, bits) \<leftarrow> set16_loop numbits pc bits; set8_loop numbits pc bits }
        else Some (numbits, pc, bits));
     set_rest numbits pc bits }"

lemma set16_loop_pc: "set16_loop n pc bits = Some (n', pc', bits') \<Longrightarrow> pc \<le> pc'"
proof (induction n pc bits rule: set16_loop.induct)
  case (1 n pc bits)
  then show ?case
    by (cases "16 \<le> n") (fastforce simp: set16_loop.simps[of n pc bits] Option.bind_eq_Some_conv)+
qed

lemma set8_loop_pc: "set8_loop n pc bits = Some (n', pc', bits') \<Longrightarrow> pc \<le> pc'"
proof (induction n pc bits rule: set8_loop.induct)
  case (1 n pc bits)
  then show ?case
    by (cases "8 \<le> n") (fastforce simp: set8_loop.simps[of n pc bits] Option.bind_eq_Some_conv)+
qed

lemma set_rest_pc: "set_rest n pc bits = Some (pc', bits') \<Longrightarrow> pc \<le> pc'"
  by (auto simp: set_rest_def)

lemma set_push_pc:
  assumes "set_push n pc bits = Some (pc', bits')"
  shows "pc \<le> pc'"
proof (cases "8 \<le> n")
  case True
  with assms obtain n1 pc1 b1 n2 pc2 b2 where
    "set16_loop n pc bits = Some (n1, pc1, b1)" "set8_loop n1 pc1 b1 = Some (n2, pc2, b2)"
    "set_rest n2 pc2 b2 = Some (pc', bits')"
    by (auto simp: set_push_def Option.bind_eq_Some_conv)
  then show ?thesis using set16_loop_pc set8_loop_pc set_rest_pc by (meson order_trans)
next
  case False
  with assms have "set_rest n pc bits = Some (pc', bits')" by (simp add: set_push_def)
  then show ?thesis by (rule set_rest_pc)
qed

function codeBitmapInternal :: "bytes \<Rightarrow> nat \<Rightarrow> bitvec \<Rightarrow> bitvec option" where
  "codeBitmapInternal code pc bits =
     (if pc < length code
      then let op = code ! pc; pc' = pc + 1 in
           if sint op < sint PUSH1 then codeBitmapInternal code pc' bits
           else (case set_push (unat (op - PUSH1 + 1)) pc' bits of
                   None \<Rightarrow> None
                 | Some (pc'', bits') \<Rightarrow> codeBitmapInternal code pc'' bits')
      else Some bits)"
  by pat_completeness auto
termination
  by (relation "measure (\<lambda>(code, pc, _). length code - pc)") (auto dest!: set_push_pc)
declare codeBitmapInternal.simps [simp del]

definition codeBitmap :: "bytes \<Rightarrow> bitvec option" where
  "codeBitmap code = codeBitmapInternal code 0 (replicate (length code div 8 + 1 + 4) 0)"

subsection \<open>Contracts (\<open>contract.go\<close>)\<close>

text \<open>
  \<open>caller\<close> is an account or another contract; of a calling contract the callee reads its address,
  its \<open>CallerAddress\<close> and its value. The map \<open>jumpdests\<close> is shared by all contracts of one
  top-level call (\<open>NewContract\<close> copies the reference), so it is passed beside the contract.
\<close>

datatype ContractRef = AccountRef address | ContractCaller address address "int option"

fun ref_Address :: "ContractRef \<Rightarrow> address" where
  "ref_Address (AccountRef a) = a"
| "ref_Address (ContractCaller a _ _) = a"

type_synonym jumpdests = "(hash, bitvec) gomap"

record Contract =
  CallerAddress :: address
  caller :: ContractRef
  self :: address
  analysis :: "bitvec option"
  Code :: bytes
  CodeHash :: hash
  CodeAddr :: "address option"
  Input :: bytes
  Gas :: u64
  cvalue :: "int option"

definition NewContract :: "ContractRef \<Rightarrow> address \<Rightarrow> int option \<Rightarrow> u64 \<Rightarrow> jumpdests \<Rightarrow> Contract \<times> jumpdests" where
  "NewContract caller' object value' gas parent_jumpdests =
     (\<lparr>CallerAddress = ref_Address caller', caller = caller', self = object, analysis = None,
        Code = [], CodeHash = 0, CodeAddr = None, Input = [], Gas = gas, cvalue = value'\<rparr>,
      case caller' of ContractCaller _ _ _ \<Rightarrow> parent_jumpdests | AccountRef _ \<Rightarrow> [])"

definition isCode :: "nat \<Rightarrow> jumpdests \<Rightarrow> Contract \<Rightarrow> (bool \<times> jumpdests \<times> Contract) option" where
  "isCode udest jumpdests c =
     (case analysis c of
        Some a \<Rightarrow> map_option (\<lambda>b. (b, jumpdests, c)) (codeSegment udest a)
      | None \<Rightarrow>
          if CodeHash c \<noteq> 0
          then do { (a, jumpdests) \<leftarrow> (case map_of jumpdests (CodeHash c) of
                        Some a \<Rightarrow> Some (a, jumpdests)
                      | None \<Rightarrow> map_option (\<lambda>a. (a, gm_put (CodeHash c) a jumpdests)) (codeBitmap (Code c)));
                    map_option (\<lambda>b. (b, jumpdests, c\<lparr>analysis := Some a\<rparr>)) (codeSegment udest a) }
          else do { a \<leftarrow> codeBitmap (Code c);
                    map_option (\<lambda>b. (b, jumpdests, c\<lparr>analysis := Some a\<rparr>)) (codeSegment udest a) })"

definition JUMPDEST :: u8 where
  "JUMPDEST = 0x5b"

definition validJumpdest :: "u256 \<Rightarrow> jumpdests \<Rightarrow> Contract \<Rightarrow> (bool \<times> jumpdests \<times> Contract) option" where
  "validJumpdest dest jumpdests c =
     (let (udest, overflow) = Uint64WithOverflow dest in
      if overflow \<or> unat udest \<ge> length (Code c) then Some (False, jumpdests, c)
      else if Code c ! unat udest \<noteq> JUMPDEST then Some (False, jumpdests, c)
      else isCode (unat udest) jumpdests c)"

definition AsDelegate :: "Contract \<Rightarrow> Contract option" where
  "AsDelegate c =
     (case caller c of
        ContractCaller _ parentCaller parentValue \<Rightarrow>
          Some (c\<lparr>CallerAddress := parentCaller, cvalue := parentValue\<rparr>)
      | AccountRef _ \<Rightarrow> None)"

definition GetOp :: "u64 \<Rightarrow> Contract \<Rightarrow> u8" where
  "GetOp n c = (if unat n < length (Code c) then Code c ! unat n else 0)"

definition UseGas :: "u64 \<Rightarrow> Contract \<Rightarrow> bool \<times> Contract" where
  "UseGas gas c = (if Gas c < gas then (False, c) else (True, c\<lparr>Gas := Gas c - gas\<rparr>))"

definition SetCallCode :: "address option \<Rightarrow> hash \<Rightarrow> bytes \<Rightarrow> Contract \<Rightarrow> Contract" where
  "SetCallCode addr hash' code c = c\<lparr>Code := code, CodeHash := hash', CodeAddr := addr\<rparr>"

definition SetCodeOptionalHash :: "address option \<Rightarrow> bytes \<times> hash \<Rightarrow> Contract \<Rightarrow> Contract" where
  "SetCodeOptionalHash addr codeAndHash c =
     c\<lparr>Code := fst codeAndHash, CodeHash := snd codeAndHash, CodeAddr := addr\<rparr>"

subsection \<open>The analysis marks exactly the data of push instructions\<close>

definition marked :: "bitvec \<Rightarrow> nat \<Rightarrow> bool" where
  "marked bits j = bit (bits ! (j div 8)) (j mod 8)"

definition marks :: "nat \<Rightarrow> nat \<Rightarrow> bitvec \<Rightarrow> bitvec \<Rightarrow> bool" where
  "marks pos n bits bits' \<longleftrightarrow> length bits' = length bits \<and>
     (\<forall>q < length bits. \<forall>k < 8. bit (bits' ! q) k \<longleftrightarrow>
        bit (bits ! q) k \<or> pos \<le> 8 * q + k \<and> 8 * q + k < pos + n)"

definition clear_from :: "nat \<Rightarrow> bitvec \<Rightarrow> bool" where
  "clear_from pos bits \<longleftrightarrow> (\<forall>q < length bits. \<forall>k < 8. pos \<le> 8 * q + k \<longrightarrow> \<not> bit (bits ! q) k)"

lemma marks_trans: "marks p n a b \<Longrightarrow> marks (p + n) m b c \<Longrightarrow> marks p (n + m) a c"
  unfolding marks_def by force

lemma marks_0: "marks p 0 a a"
  by (auto simp: marks_def)

lemma marks_clear: "marks p n a b \<Longrightarrow> clear_from p a \<Longrightarrow> clear_from (p + n) b"
  unfolding marks_def clear_from_def by force

lemma clear_byte: "clear_from pos bits \<Longrightarrow> q < length bits \<Longrightarrow> pos \<le> 8 * q \<Longrightarrow> k < 8 \<Longrightarrow> \<not> bit (bits ! q) k"
  by (simp add: clear_from_def)

lemma low_mask: "bit (mask n :: 'a::len word) k \<longleftrightarrow> k < n \<and> k < LENGTH('a)"
  by (auto simp: bit_simps)

lemma byte_FF: "bit (0xFF :: u8) k \<longleftrightarrow> k < 8"
  using low_mask[of 8 k, where 'a = 8] by (simp add: mask_eq_exp_minus_1)

lemma setN_ok:
  assumes c: "clear_from pos bits" and len: "(pos + n) div 8 < length bits" and n: "n \<le> 8"
  shows "\<exists>bits'. setN (mask n) pos bits = Some bits' \<and> marks pos n bits bits'"
proof -
  define p r where "p = pos div 8" and "r = pos mod 8"
  have pos: "pos = 8 * p + r" and r: "r < 8" by (auto simp: p_def r_def)
  define a :: "16 word" where "a = push_bit r (mask n)"
  define b :: u8 where "b = ucast (drop_bit 8 a)"
  have a: "bit a k \<longleftrightarrow> r \<le> k \<and> k < r + n" if "k < 16" for k
    using that n r by (auto simp: a_def bit_simps)
  have lo: "bit (ucast a :: u8) k \<longleftrightarrow> r \<le> k \<and> k < r + n" if "k < 8" for k
    using that a[of k] by (simp add: bit_simps)
  have hi: "bit b k \<longleftrightarrow> k + 8 < r + n" if "k < 8" for k
    using that a[of "k + 8"] r by (simp add: b_def bit_simps add.commute)
  have p1: "p < length bits" using len pos by linarith
  have b0: "b = 0 \<longleftrightarrow> r + n \<le> 8"
  proof
    assume "b = 0" then show "r + n \<le> 8" using hi[of 0] by auto
  next
    assume "r + n \<le> 8" then show "b = 0" by (intro bit_word_eqI) (use hi in auto)
  qed
  let ?one = "bits[p := bits ! p OR ucast a]"
  show ?thesis
  proof (cases "b = 0")
    case True
    then have "marks pos n bits ?one"
      using p1 lo b0 by (auto simp: marks_def nth_list_update bit_or_iff pos)
    moreover have "setN (mask n) pos bits = Some ?one"
      using True p1 by (simp add: setN_def bits_upd_def p_def r_def a_def b_def Let_def)
    ultimately show ?thesis by blast
  next
    case False
    then have p2: "p + 1 < length bits" using len pos b0 by linarith
    have "marks pos n bits (?one[p + 1 := b])"
      using p1 p2 lo hi n r clear_byte[OF c, of "p + 1"]
      by (auto simp: marks_def nth_list_update bit_or_iff pos)
    moreover have "setN (mask n) pos bits = Some (?one[p + 1 := b])"
      using False p1 p2 by (simp add: setN_def bits_upd_def p_def r_def a_def b_def Let_def)
    ultimately show ?thesis by blast
  qed
qed

lemma set1_ok:
  assumes len: "(pos + 1) div 8 < length bits"
  shows "\<exists>bits'. set1 pos bits = Some bits' \<and> marks pos 1 bits bits'"
proof -
  define p r where "p = pos div 8" and "r = pos mod 8"
  have pos: "pos = 8 * p + r" and r: "r < 8" by (auto simp: p_def r_def)
  have p1: "p < length bits" using len pos by linarith
  have a: "bit (push_bit r 1 :: u8) k \<longleftrightarrow> k = r" if "k < 8" for k
    using that by (auto simp: bit_simps)
  have "marks pos 1 bits (bits[p := bits ! p OR push_bit r 1])"
    using p1 a r by (auto simp: marks_def nth_list_update bit_or_iff pos)
  moreover have "set1 pos bits = Some (bits[p := bits ! p OR push_bit r 1])"
    using p1 by (simp add: set1_def bits_upd_def p_def r_def)
  ultimately show ?thesis by blast
qed

lemma shifted_FF: "k < 8 \<Longrightarrow> bit (push_bit r 0xFF :: u8) k \<longleftrightarrow> r \<le> k"
  using byte_FF[of "k - r"] by (auto simp: bit_push_bit_iff)

lemma set8_ok:
  assumes c: "clear_from pos bits" and len: "(pos + 8) div 8 < length bits"
  shows "\<exists>bits'. set8 pos bits = Some bits' \<and> marks pos 8 bits bits'"
proof -
  define p r where "p = pos div 8" and "r = pos mod 8"
  have pos: "pos = 8 * p + r" and r: "r < 8" by (auto simp: p_def r_def)
  have p2: "p + 1 < length bits" using len pos by linarith
  let ?a = "push_bit r 0xFF :: u8"
  let ?b = "bits[p := bits ! p OR ?a, p + 1 := NOT ?a]"
  have "marks pos 8 bits ?b"
    using p2 r shifted_FF clear_byte[OF c, of "p + 1"]
    by (auto simp: marks_def nth_list_update bit_or_iff bit_not_iff pos)
  moreover have "set8 pos bits = Some ?b"
    using p2 by (simp add: set8_def bits_upd_def p_def r_def Let_def)
  ultimately show ?thesis by blast
qed

lemma set16_ok:
  assumes c: "clear_from pos bits" and len: "(pos + 16) div 8 < length bits"
  shows "\<exists>bits'. set16 pos bits = Some bits' \<and> marks pos 16 bits bits'"
proof -
  define p r where "p = pos div 8" and "r = pos mod 8"
  have pos: "pos = 8 * p + r" and r: "r < 8" by (auto simp: p_def r_def)
  have p2: "p + 2 < length bits" using len pos by linarith
  let ?a = "push_bit r 0xFF :: u8"
  let ?b = "bits[p := bits ! p OR ?a, p + 1 := 0xFF, p + 2 := NOT ?a]"
  have "marks pos 16 bits ?b"
    using p2 r shifted_FF byte_FF clear_byte[OF c, of "p + 1"] clear_byte[OF c, of "p + 2"]
    by (auto simp: marks_def nth_list_update bit_or_iff bit_not_iff pos)
  moreover have "set16 pos bits = Some ?b"
    using p2 by (simp add: set16_def bits_upd_def p_def r_def Let_def)
  ultimately show ?thesis by blast
qed

lemma mod_step:
  fixes k n :: nat
  assumes "k \<le> n"
  shows "(n - k) mod k = n mod k \<and> k + (n - k - n mod k) = n - n mod k"
proof -
  have "(n - k) mod k = n mod k" using assms by (simp add: le_mod_geq)
  then have "n mod k \<le> n - k" using mod_less_eq_dividend[of "n - k" k] by simp
  then show ?thesis using assms \<open>(n - k) mod k = n mod k\<close> by linarith
qed

lemma set16_loop_ok:
  assumes "clear_from pc bits" "(pc + n) div 8 < length bits"
  shows "\<exists>bits'. set16_loop n pc bits = Some (n mod 16, pc + (n - n mod 16), bits') \<and>
     marks pc (n - n mod 16) bits bits'"
  using assms
proof (induction n pc bits rule: set16_loop.induct)
  case (1 n pc bits)
  show ?case
  proof (cases "16 \<le> n")
    case False
    then show ?thesis by (simp add: set16_loop.simps[of n] marks_0)
  next
    case True
    have "(pc + 16) div 8 < length bits" using 1(3) True by linarith
    then obtain b1 where b1: "set16 pc bits = Some b1" "marks pc 16 bits b1"
      using set16_ok[OF 1(2)] by blast
    have "clear_from (pc + 16) b1" using marks_clear[OF b1(2) 1(2)] .
    moreover have "(pc + 16 + (n - 16)) div 8 < length b1" using 1(3) True b1(2) by (simp add: marks_def)
    ultimately obtain b2 where b2: "set16_loop (n - 16) (pc + 16) b1
        = Some ((n - 16) mod 16, pc + 16 + (n - 16 - (n - 16) mod 16), b2)"
        "marks (pc + 16) (n - 16 - (n - 16) mod 16) b1 b2"
      using 1(1)[OF True b1(1)] by blast
    have e: "(n - 16) mod 16 = n mod 16" "16 + (n - 16 - n mod 16) = n - n mod 16"
      using mod_step[OF True] by simp_all
    have "marks pc (n - n mod 16) bits b2" using marks_trans[OF b1(2) b2(2)] unfolding e .
    moreover have "pc + 16 + (n - 16 - n mod 16) = pc + (n - n mod 16)" using e(2) by linarith
    ultimately show ?thesis
      using True b1(1) b2(1) unfolding e by (simp add: set16_loop.simps[of n pc bits])
  qed
qed

lemma set8_loop_ok:
  assumes "clear_from pc bits" "(pc + n) div 8 < length bits"
  shows "\<exists>bits'. set8_loop n pc bits = Some (n mod 8, pc + (n - n mod 8), bits') \<and>
     marks pc (n - n mod 8) bits bits'"
  using assms
proof (induction n pc bits rule: set8_loop.induct)
  case (1 n pc bits)
  show ?case
  proof (cases "8 \<le> n")
    case False
    then show ?thesis by (simp add: set8_loop.simps[of n] marks_0)
  next
    case True
    have "(pc + 8) div 8 < length bits" using 1(3) True by linarith
    then obtain b1 where b1: "set8 pc bits = Some b1" "marks pc 8 bits b1"
      using set8_ok[OF 1(2)] by blast
    have "clear_from (pc + 8) b1" using marks_clear[OF b1(2) 1(2)] .
    moreover have "(pc + 8 + (n - 8)) div 8 < length b1" using 1(3) True b1(2) by (simp add: marks_def)
    ultimately obtain b2 where b2: "set8_loop (n - 8) (pc + 8) b1
        = Some ((n - 8) mod 8, pc + 8 + (n - 8 - (n - 8) mod 8), b2)"
        "marks (pc + 8) (n - 8 - (n - 8) mod 8) b1 b2"
      using 1(1)[OF True b1(1)] by blast
    have e: "(n - 8) mod 8 = n mod 8" "8 + (n - 8 - n mod 8) = n - n mod 8"
      using mod_step[OF True] by simp_all
    have "marks pc (n - n mod 8) bits b2" using marks_trans[OF b1(2) b2(2)] unfolding e .
    moreover have "pc + 8 + (n - 8 - n mod 8) = pc + (n - n mod 8)" using e(2) by linarith
    ultimately show ?thesis
      using True b1(1) b2(1) unfolding e by (simp add: set8_loop.simps[of n pc bits])
  qed
qed

lemma mask_literals:
  "(0b11 :: 16 word) = mask 2" "(0b111 :: 16 word) = mask 3" "(0b1111 :: 16 word) = mask 4"
  "(0b11111 :: 16 word) = mask 5" "(0b111111 :: 16 word) = mask 6" "(0b1111111 :: 16 word) = mask 7"
  by (simp_all add: mask_eq_exp_minus_1)

lemma set_rest_ok:
  assumes c: "clear_from pc bits" and len: "(pc + n) div 8 < length bits" and n: "n < 8"
  shows "\<exists>bits'. set_rest n pc bits = Some (pc + n, bits') \<and> marks pc n bits bits'"
proof -
  consider "n = 0" | "n = 1" | "2 \<le> n" by linarith
  then show ?thesis
  proof cases
    case 1
    then show ?thesis by (simp add: set_rest_def marks_0)
  next
    case 2
    then show ?thesis using set1_ok[of pc bits] len by (auto simp: set_rest_def)
  next
    case 3
    obtain b where b: "setN (mask n) pc bits = Some b" "marks pc n bits b"
      using setN_ok[OF c len] n by auto
    have "n = 2 \<or> n = 3 \<or> n = 4 \<or> n = 5 \<or> n = 6 \<or> n = 7" using 3 n by linarith
    then have "set_rest n pc bits = map_option (Pair (pc + n)) (setN (mask n) pc bits)"
      unfolding set_rest_def mask_literals by (elim disjE) simp_all
    then show ?thesis using b by simp
  qed
qed

lemma set_push_ok:
  assumes c: "clear_from pc bits" and len: "(pc + n) div 8 < length bits"
  shows "\<exists>bits'. set_push n pc bits = Some (pc + n, bits') \<and> marks pc n bits bits'"
proof (cases "8 \<le> n")
  case False
  then show ?thesis using set_rest_ok[OF c len] by (simp add: set_push_def)
next
  case True
  define k where "k = n mod 16"
  obtain b1 where b1: "set16_loop n pc bits = Some (k, pc + (n - k), b1)" "marks pc (n - k) bits b1"
    using set16_loop_ok[OF c len] by (auto simp: k_def)
  have k: "k \<le> n" by (simp add: k_def)
  have l1: "length b1 = length bits" using b1(2) by (simp add: marks_def)
  obtain b2 where b2: "set8_loop k (pc + (n - k)) b1 = Some (k mod 8, pc + (n - k) + (k - k mod 8), b2)"
      "marks (pc + (n - k)) (k - k mod 8) b1 b2"
    using set8_loop_ok[OF marks_clear[OF b1(2) c], of k] k len l1 by auto
  have m2: "marks pc (n - k mod 8) bits b2" using marks_trans[OF b1(2) b2(2)] k by simp
  have pc2: "pc + (n - k) + (k - k mod 8) = pc + (n - k mod 8)" using k by simp
  have l2: "length b2 = length bits" using m2 by (simp add: marks_def)
  have k8: "k mod 8 \<le> n" "k mod 8 < 8" using k by (auto intro: order_trans[OF mod_less_eq_dividend])
  obtain b3 where b3: "set_rest (k mod 8) (pc + (n - k mod 8)) b2 = Some (pc + n, b3)"
      "marks (pc + (n - k mod 8)) (k mod 8) b2 b3"
    using set_rest_ok[OF marks_clear[OF m2 c], of "k mod 8"] k8 len l2 by auto
  have "marks pc n bits b3" using marks_trans[OF m2 b3(2)] k8 by simp
  then show ?thesis using True b1(1) b2(1) b3(1) by (simp add: set_push_def pc2)
qed

text \<open>
  The reference: instructions start at position 0 and after each instruction together with its
  data; \<open>PUSH n\<close>, of code \<open>0x5f + n\<close>, is followed by \<open>n\<close> bytes of data.
\<close>

definition push_len :: "u8 \<Rightarrow> nat" where
  "push_len op = (if 0x60 \<le> op \<and> op \<le> 0x7f then unat op - 0x5f else 0)"

inductive instr_at :: "bytes \<Rightarrow> nat \<Rightarrow> bool" for code where
  start: "instr_at code 0"
| succ: "instr_at code pc \<Longrightarrow> pc < length code \<Longrightarrow> instr_at code (pc + 1 + push_len (code ! pc))"

lemma push_op_iff:
  "sint op < sint PUSH1 \<longleftrightarrow> push_len op = 0"
  "\<not> sint op < sint PUSH1 \<Longrightarrow> unat (op - PUSH1 + 1) = push_len op"
proof -
  have "uint op = sint op mod 256" by (simp add: uint_sint take_bit_eq_mod)
  moreover have "- 128 \<le> sint op" "sint op < 128"
    using sint_greater_eq[of op] sint_less[of op] by simp_all
  ultimately have "uint op = (if sint op < 0 then sint op + 256 else sint op)"
    using mod_add_self2[of "sint op" 256] mod_pos_pos_trivial[of "sint op + 256" 256]
      mod_pos_pos_trivial[of "sint op" 256] by (cases "sint op < 0") simp_all
  with \<open>sint op < 128\<close> \<open>- 128 \<le> sint op\<close>
  have u: "sint op < 96 \<longleftrightarrow> \<not> (96 \<le> uint op \<and> uint op \<le> 127)" by (auto split: if_splits)
  have s: "sint PUSH1 = 96" by (simp add: PUSH1_def)
  have r: "96 \<le> op \<and> op \<le> 127 \<longleftrightarrow> 96 \<le> uint op \<and> uint op \<le> 127"
    by (simp add: word_le_def)
  have n: "96 \<le> unat op" if "96 \<le> op" using that by (simp add: word_le_nat_alt)
  show "sint op < sint PUSH1 \<longleftrightarrow> push_len op = 0"
    using u r n by (auto simp: s push_len_def)
  assume "\<not> sint op < sint PUSH1"
  then have op: "96 \<le> op" "op \<le> 127" using u r s by auto
  have "op - PUSH1 < 255" using op by (simp add: PUSH1_def word_less_nat_alt unat_sub word_le_nat_alt)
  then have "unat (op - PUSH1 + 1) = Suc (unat (op - PUSH1))" by (rule unat_inc)
  then show "unat (op - PUSH1 + 1) = push_len op"
    using op n by (simp add: push_len_def PUSH1_def unat_sub)
qed

lemma push_len_le: "push_len op \<le> 32"
  by (auto simp: push_len_def word_le_nat_alt)

lemma instr_at_gap:
  "instr_at code j \<Longrightarrow> instr_at code pc \<Longrightarrow> pc < j \<Longrightarrow> pc < length code \<Longrightarrow> pc + 1 + push_len (code ! pc) \<le> j"
proof (induction j arbitrary: pc rule: less_induct)
  case (less j)
  from less(2) show ?case
  proof cases
    case start
    then show ?thesis using less(4) by simp
  next
    case (succ j')
    consider "pc < j'" | "pc = j'" | "j' < pc" by linarith
    then show ?thesis
    proof cases
      case 1
      then show ?thesis using less(1)[of j' pc] less(3,5) succ by simp
    next
      case 2
      then show ?thesis using succ by simp
    next
      case 3
      then show ?thesis using less(1)[of pc j'] less(3,4) succ by simp
    qed
  qed
qed

definition analysed :: "bytes \<Rightarrow> nat \<Rightarrow> bitvec \<Rightarrow> bool" where
  "analysed code pc bits \<longleftrightarrow> (\<forall>j < length code. j < pc \<longrightarrow> (\<not> marked bits j \<longleftrightarrow> instr_at code j))"

lemma analysed_step:
  assumes a: "analysed code pc bits" and c: "clear_from pc bits" and at: "instr_at code pc"
    and pc: "pc < length code" and m: "marks (pc + 1) (push_len (code ! pc)) bits bits'"
    and len: "length code \<le> 8 * length bits"
  shows "analysed code (pc + 1 + push_len (code ! pc)) bits'"
  unfolding analysed_def
proof (intro allI impI)
  fix j
  assume j: "j < length code" "j < pc + 1 + push_len (code ! pc)"
  have q: "j div 8 < length bits" using j len by linarith
  have v: "marked bits' j \<longleftrightarrow> marked bits j \<or> pc + 1 \<le> j"
    using m q j(2) unfolding marks_def marked_def
    by (auto dest!: spec[of _ "j div 8"] spec[of _ "j mod 8"])
  consider "j < pc" | "j = pc" | "pc < j" by linarith
  then show "\<not> marked bits' j \<longleftrightarrow> instr_at code j"
  proof cases
    case 1
    then show ?thesis using a j(1) v by (simp add: analysed_def)
  next
    case 2
    then show ?thesis using at v c q unfolding clear_from_def marked_def
      by (auto dest!: spec[of _ "j div 8"] spec[of _ "j mod 8"])
  next
    case 3
    then show ?thesis using v instr_at_gap[OF _ at 3 pc] j(2) by fastforce
  qed
qed

lemma codeBitmapInternal_ok:
  assumes "analysed code pc bits" "clear_from pc bits" "instr_at code pc"
    "length bits = length code div 8 + 1 + 4"
  shows "\<exists>bits'. codeBitmapInternal code pc bits = Some bits' \<and> analysed code (length code) bits' \<and>
     length bits' = length bits"
  using assms
proof (induction code pc bits rule: codeBitmapInternal.induct)
  case (1 code pc bits)
  show ?case
  proof (cases "pc < length code")
    case False
    then show ?thesis using 1(3) by (auto simp: codeBitmapInternal.simps[of code pc] analysed_def)
  next
    case True
    let ?op = "code ! pc"
    let ?n = "push_len ?op"
    have c1: "clear_from (pc + 1) bits" using 1(4) by (auto simp: clear_from_def)
    have len: "length code \<le> 8 * length bits" using 1(6) by linarith
    have next_at: "instr_at code (pc + 1 + ?n)" using 1(5) True by (rule instr_at.succ)
    show ?thesis
    proof (cases "sint ?op < sint PUSH1")
      case no_push: True
      then have n: "?n = 0" by (simp add: push_op_iff)
      have "analysed code (pc + 1) bits"
        using analysed_step[OF 1(3,4,5) True _ len] marks_0 n by simp
      then show ?thesis
        using 1(1)[OF True refl refl no_push _ c1] next_at n 1(6) True no_push
        by (simp add: codeBitmapInternal.simps[of code pc] Let_def)
    next
      case push: False
      have room: "(pc + 1 + ?n) div 8 < length bits"
        using push_len_le[of ?op] True 1(6) by linarith
      obtain b1 where b1: "set_push ?n (pc + 1) bits = Some (pc + 1 + ?n, b1)" "marks (pc + 1) ?n bits b1"
        using set_push_ok[OF c1 room] by blast
      note n = push_op_iff(2)[OF push]
      have l1: "length b1 = length bits" using b1(2) by (simp add: marks_def)
      have "\<exists>bits'. codeBitmapInternal code (pc + 1 + ?n) b1 = Some bits' \<and>
          analysed code (length code) bits' \<and> length bits' = length b1"
      proof (rule 1(2)[OF True refl refl push _ refl])
        show "set_push (unat (?op - PUSH1 + 1)) (pc + 1) bits = Some (pc + 1 + ?n, b1)" using b1(1) n by simp
        show "analysed code (pc + 1 + ?n) b1" using analysed_step[OF 1(3,4,5) True b1(2) len] .
        show "clear_from (pc + 1 + ?n) b1" using marks_clear[OF b1(2) c1] .
        show "length b1 = length code div 8 + 1 + 4" using l1 1(6) by simp
      qed (rule next_at)
      then show ?thesis
        using True push b1(1) n l1 by (simp add: codeBitmapInternal.simps[of code pc] Let_def)
    qed
  qed
qed

lemma codeSegment_marked:
  "pos div 8 < length bits \<Longrightarrow> codeSegment pos bits = Some (\<not> marked bits pos)"
  by (simp add: codeSegment_def marked_def bit_iff_odd_drop_bit and_one_eq odd_iff_mod_2_eq_one)

lemma codeBitmap_ok:
  "\<exists>bits. codeBitmap code = Some bits \<and>
     (\<forall>pos < length code. codeSegment pos bits = Some (instr_at code pos))"
proof -
  let ?zero = "replicate (length code div 8 + 1 + 4) 0 :: bitvec"
  have "analysed code 0 ?zero" by (simp add: analysed_def)
  moreover have "clear_from 0 ?zero" by (simp add: clear_from_def)
  ultimately obtain bits where b: "codeBitmap code = Some bits" "analysed code (length code) bits"
      "length bits = length code div 8 + 1 + 4"
    using codeBitmapInternal_ok[OF _ _ instr_at.start] unfolding codeBitmap_def by force
  have "codeSegment pos bits = Some (instr_at code pos)" if "pos < length code" for pos
  proof -
    have "pos div 8 < length bits" using that b(3) by linarith
    then show ?thesis using that b(2) by (simp add: codeSegment_marked analysed_def)
  qed
  then show ?thesis using b(1) by blast
qed

definition cache_ok :: "jumpdests \<Rightarrow> Contract \<Rightarrow> bool" where
  "cache_ok jumpdests c \<longleftrightarrow>
     (\<forall>a. analysis c = Some a \<longrightarrow> codeBitmap (Code c) = Some a) \<and>
     (CodeHash c \<noteq> 0 \<longrightarrow> (\<forall>a. map_of jumpdests (CodeHash c) = Some a \<longrightarrow> codeBitmap (Code c) = Some a))"

lemma isCode_ok:
  assumes "cache_ok jd c" "udest < length (Code c)"
  shows "\<exists>jd' c'. isCode udest jd c = Some (instr_at (Code c) udest, jd', c') \<and> cache_ok jd' c' \<and>
     c' = c\<lparr>analysis := analysis c'\<rparr>"
proof -
  obtain bits where b: "codeBitmap (Code c) = Some bits"
      "codeSegment udest bits = Some (instr_at (Code c) udest)"
    using codeBitmap_ok assms(2) by blast
  show ?thesis
  proof (cases "analysis c")
    case (Some a)
    then have "a = bits" using assms(1) b(1) by (simp add: cache_ok_def)
    then show ?thesis using Some b(2) assms(1) by (simp add: isCode_def)
  next
    case None
    then show ?thesis
      using assms(1) b
      by (cases "map_of jd (CodeHash c)")
        (auto simp: isCode_def cache_ok_def gomap_simps)
  qed
qed

text \<open>
  C4. The jump destination analysis succeeds on every code, and a position of the code is in the
  code segment exactly when an instruction starts there: the bitmap, written byte-wise by the
  specialised setters, marks exactly the data bytes of push instructions.
\<close>

theorem codeBitmap_marks_push_data:
  assumes "pos < length code"
  shows "\<exists>bits. codeBitmap code = Some bits \<and> codeSegment pos bits = Some (instr_at code pos)"
  using codeBitmap_ok assms by blast

theorem codeBitmap_marks_push_data_witness:
  "\<exists>bits. codeBitmap [0x60, 0x5b, 0x5b] = Some bits \<and> codeSegment 2 bits = Some True"
proof -
  have "push_len 0x60 = 1" by (simp add: push_len_def)
  then have "instr_at [0x60, 0x5b, 0x5b] 2"
    using instr_at.succ[OF instr_at.start, of "[0x60, 0x5b, 0x5b]"] by (simp add: numeral_2_eq_2)
  then show ?thesis using codeBitmap_marks_push_data[of 2 "[0x60, 0x5b, 0x5b]"] by simp
qed

text \<open>
  C14. A jump is accepted exactly when its target is inside the code, holds \<open>JUMPDEST\<close> and starts
  an instruction, whether the analysis is found in the contract, in the shared map or is made anew;
  the caches stay consistent and nothing but the cached analysis of the contract changes.
\<close>

theorem validJumpdest_exact:
  assumes "cache_ok jd c"
  shows "\<exists>jd' c'. validJumpdest dest jd c
       = Some (unat dest < length (Code c) \<and> uint dest < 2 ^ 64 \<and> Code c ! unat dest = JUMPDEST \<and>
               instr_at (Code c) (unat dest), jd', c') \<and>
     cache_ok jd' c' \<and> c' = c\<lparr>analysis := analysis c'\<rparr>"
proof (cases "IsUint64 dest \<and> unat dest < length (Code c) \<and> Code c ! unat dest = JUMPDEST")
  case True
  then have "unat (Uint64 dest) = unat dest" by (simp add: unat_Uint64)
  then show ?thesis
    using True isCode_ok[OF assms, of "unat dest"]
    by (auto simp: validJumpdest_def Uint64WithOverflow_def IsUint64_def)
next
  case False
  have "validJumpdest dest jd c = Some (False, jd, c)"
    using False unat_Uint64 by (auto simp: validJumpdest_def Uint64WithOverflow_def)
  then show ?thesis using False assms by (auto simp: IsUint64_def)
qed

definition sample_contract :: Contract where
  "sample_contract = (fst (NewContract (AccountRef 1) 2 (Some 0) 100 []))\<lparr>Code := [0x5b, 0x00]\<rparr>"

theorem validJumpdest_exact_witness:
  "\<exists>jd' c'. validJumpdest 0 [] sample_contract = Some (True, jd', c') \<and> cache_ok jd' c'"
proof -
  have "cache_ok [] sample_contract" by (simp add: cache_ok_def sample_contract_def NewContract_def)
  moreover have "Code sample_contract = [0x5b, 0x00]" by (simp add: sample_contract_def)
  ultimately show ?thesis
    using validJumpdest_exact[of "[]" sample_contract 0] instr_at.start by (auto simp: JUMPDEST_def)
qed

subsection \<open>Memory and sizes\<close>

lemma length_go_copy: "off + min n (length src) \<le> length dst \<Longrightarrow> length (go_copy off n src dst) = length dst"
  by (simp add: go_copy_def)

lemma nth_go_copy:
  "off + min n (length src) \<le> length dst \<Longrightarrow> i < length dst \<Longrightarrow> go_copy off n src dst ! i
     = (if off \<le> i \<and> i < off + min n (length src) then src ! (i - off) else dst ! i)"
  by (auto simp: go_copy_def nth_append min.commute[of n])

lemma Set_ok:
  assumes "unat off + unat sz \<le> Len m" "Len m < 2 ^ 64"
  shows "Set off sz val m = Some (if sz = 0 then m
     else m\<lparr>store := go_copy (unat off) (unat sz) val (store m)\<rparr>)"
proof -
  have "unat (off + sz) = unat off + unat sz" using assms by (simp add: unat_word_ariths)
  moreover have "\<not> off > off + sz" using calculation by (simp add: word_less_nat_alt)
  ultimately show ?thesis using assms by (simp add: Set_def word_gt_0)
qed

lemma GetPtr_ok:
  assumes "off + n \<le> Len m"
  shows "GetPtr (int off) (int n) m = Some (take n (drop off (store m)))"
proof -
  have "nat (int off + int n - int off) = n" by simp
  then show ?thesis using assms unfolding GetPtr_def go_slice_def Len_def by (cases "n = 0") simp_all
qed

lemma GetCopy_ok:
  assumes "off + n \<le> Len m"
  shows "GetCopy (int off) (int n) m = Some (take n (drop off (store m)))"
proof -
  have "nat (int off + int n - int off) = n" by simp
  then show ?thesis using assms unfolding GetCopy_def go_slice_def Len_def by (cases "n = 0") simp_all
qed

text \<open>
  C26. A word written to memory by \<open>Set32\<close> (\<open>MSTORE\<close>) is read back by \<open>GetPtr\<close> and
  \<open>SetBytes\<close> (\<open>MLOAD\<close>) at the same offset, big endian in both directions; no other byte changes.
\<close>

theorem memory_word_round_trip:
  assumes "unat off + 32 \<le> Len m" "Len m < 2 ^ 63"
  shows "\<exists>m'. Set32 off v m = Some m' \<and> Len m' = Len m \<and>
     map_option SetBytes (GetPtr (sint off) 32 m') = Some v \<and>
     (\<forall>i < Len m. i < unat off \<or> unat off + 32 \<le> i \<longrightarrow> store m' ! i = store m ! i)"
proof -
  let ?m = "m\<lparr>store := go_copy (unat off) 32 (Bytes32 v) (store m)\<rparr>"
  have l: "unat off + 32 \<le> length (store m)" using assms(1) by (simp add: Len_def)
  have "unat (off + 32) = unat off + 32" using assms by (simp add: unat_word_ariths)
  then have set: "Set32 off v m = Some ?m" using assms(1) by (simp add: Set32_def)
  have len: "Len ?m = Len m" using l by (simp add: Len_def length_go_copy)
  have "sint off = int (unat off)" using assms by (intro sint_small) simp
  then have "GetPtr (sint off) 32 ?m = Some (take 32 (drop (unat off) (store ?m)))"
    using GetPtr_ok[of "unat off" 32 ?m] assms(1) len by simp
  moreover have "take 32 (drop (unat off) (store ?m)) = Bytes32 v" using l by (simp add: go_copy_def)
  ultimately show ?thesis using set len l by (auto simp: SetBytes_Bytes32 nth_go_copy Len_def)
qed

theorem memory_word_round_trip_witness:
  "\<exists>m'. Set32 1 0xABCD (Resize 64 NewMemory) = Some m' \<and> map_option SetBytes (GetPtr 1 32 m') = Some 0xABCD"
proof -
  have "Len (Resize 64 NewMemory) = 64" by (simp add: Resize_def NewMemory_def Len_def)
  then show ?thesis using memory_word_round_trip[of 1 "Resize 64 NewMemory" "0xABCD"] by auto
qed

text \<open>
  C28. The memory size of an access is computed without wrap-around: the overflow flag is set
  exactly when the access is not empty and its end does not fit 64 bits, and otherwise the result
  is the end of the access, or 0 for an empty one.
\<close>

theorem calcMemSize64_exact:
  "calcMemSize64 off l =
     (if l = 0 then (0, False)
      else if uint off + uint l < 2 ^ 64 then (word_of_int (uint off + uint l), False)
      else (fst (calcMemSize64 off l), True))"
proof (cases "IsUint64 l \<and> IsUint64 off")
  case True
  then have u: "uint (Uint64 l) = uint l" "uint (Uint64 off) = uint off" by (simp_all add: Uint64_exact)
  have z: "Uint64 l = 0 \<longleftrightarrow> l = 0" using u(1) by (metis uint_0_iff)
  have w: "Uint64 off + Uint64 l = word_of_int (uint off + uint l)"
    by (simp flip: u add: word_of_int_uint)
  have "Uint64 off + Uint64 l < Uint64 off \<longleftrightarrow> \<not> uint off + uint l < 2 ^ 64"
    using u uint_lt2p[of "Uint64 l"] uint_lt2p[of "Uint64 off"]
    by (simp add: word_less_def uint_plus_if_size word_size)
  then show ?thesis using True z w
    by (simp add: calcMemSize64_def calcMemSize64WithUint_def Uint64WithOverflow_def Let_def)
next
  case False
  then have "\<not> uint off + uint l < 2 ^ 64" using uint_ge_0[of l] uint_ge_0[of off]
    unfolding IsUint64_def by linarith
  moreover have "IsUint64 l \<Longrightarrow> Uint64 l = 0 \<longleftrightarrow> l = 0" using Uint64_exact[of l] by (metis uint_0_iff)
  moreover have "l = 0 \<Longrightarrow> IsUint64 l" by (simp add: IsUint64_def)
  ultimately show ?thesis using False
    by (auto simp: calcMemSize64_def calcMemSize64WithUint_def Uint64WithOverflow_def Uint64_def)
qed

end
