(* ===== verification/EVMGas.thy ===== *)
theory EVMGas
  imports EVMBase AccessList
begin

unbundle bit_operations_syntax

text \<open>
  The world of the virtual machine and the price of its instructions: the \<open>StateDB\<close> interface
  (\<open>interface.go\<close>), block and transaction context (\<open>evm.go\<close>), the memory size of each instruction
  (\<open>memory_table.go\<close>) and the gas functions (\<open>gas.go\<close>, \<open>gas_table.go\<close>).

  \<^item> The interface \<open>StateDB\<close> is a record of functions over an arbitrary state \<open>'s\<close>: what the virtual
    machine does holds for every implementation. A method that can panic returns an option.
  \<^item> The operations of the \<open>uint256\<close> package that are not those of a 256-bit word (division,
    exponentiation, sign extension) are the fields of \<open>uint256_lib\<close>; the hash function and the
    native contracts are fields of the context.
  \<^item> A gas function returns the price or an error (\<open>Inl\<close>), with the machine and the memory it
    updates; \<open>None\<close> is a panic.
\<close>

subsection \<open>Interfaces and contexts\<close>

record Log =
  log_Address :: address
  Topics :: "hash list"
  log_Data :: bytes
  log_BlockNumber :: u64

record 's StateDB =
  CreateAccount :: "address \<Rightarrow> 's \<Rightarrow> 's"
  SubBalance :: "address \<Rightarrow> int \<Rightarrow> 's \<Rightarrow> 's"
  AddBalance :: "address \<Rightarrow> int \<Rightarrow> 's \<Rightarrow> 's"
  GetBalance :: "address \<Rightarrow> 's \<Rightarrow> int"
  GetNonce :: "address \<Rightarrow> 's \<Rightarrow> u64"
  SetNonce :: "address \<Rightarrow> u64 \<Rightarrow> 's \<Rightarrow> 's"
  GetCodeHash :: "address \<Rightarrow> 's \<Rightarrow> hash"
  GetCode :: "address \<Rightarrow> 's \<Rightarrow> bytes"
  SetCode :: "address \<Rightarrow> bytes \<Rightarrow> 's \<Rightarrow> 's"
  GetCodeSize :: "address \<Rightarrow> 's \<Rightarrow> nat"
  AddRefund :: "u64 \<Rightarrow> 's \<Rightarrow> 's"
  SubRefund :: "u64 \<Rightarrow> 's \<Rightarrow> 's option"
  GetCommittedState :: "address \<Rightarrow> hash \<Rightarrow> 's \<Rightarrow> hash"
  GetState :: "address \<Rightarrow> hash \<Rightarrow> 's \<Rightarrow> hash"
  SetState :: "address \<Rightarrow> hash \<Rightarrow> hash \<Rightarrow> 's \<Rightarrow> 's"
  GetTransientState :: "address \<Rightarrow> hash \<Rightarrow> 's \<Rightarrow> hash"
  SetTransientState :: "address \<Rightarrow> hash \<Rightarrow> hash \<Rightarrow> 's \<Rightarrow> 's"
  SelfDestruct :: "address \<Rightarrow> 's \<Rightarrow> 's"
  HasSelfDestructed :: "address \<Rightarrow> 's \<Rightarrow> bool"
  Selfdestruct6780 :: "address \<Rightarrow> 's \<Rightarrow> 's"
  Exist :: "address \<Rightarrow> 's \<Rightarrow> bool"
  Empty :: "address \<Rightarrow> 's \<Rightarrow> bool"
  AddressInAccessList :: "address \<Rightarrow> 's \<Rightarrow> bool"
  SlotInAccessList :: "address \<Rightarrow> hash \<Rightarrow> 's \<Rightarrow> bool \<times> bool"
  AddAddressToAccessList :: "address \<Rightarrow> 's \<Rightarrow> 's"
  AddSlotToAccessList :: "address \<Rightarrow> hash \<Rightarrow> 's \<Rightarrow> 's"
  RevertToSnapshot :: "int \<Rightarrow> 's \<Rightarrow> 's option"
  Snapshot :: "'s \<Rightarrow> int \<times> 's"
  AddLog :: "Log \<Rightarrow> 's \<Rightarrow> 's"
  AddPreimage :: "hash \<Rightarrow> bytes \<Rightarrow> 's \<Rightarrow> 's"
  GetAccessList :: "'s \<Rightarrow> AccessList"

record uint256_lib =
  Div :: "u256 \<Rightarrow> u256 \<Rightarrow> u256"
  SDiv :: "u256 \<Rightarrow> u256 \<Rightarrow> u256"
  Mod :: "u256 \<Rightarrow> u256 \<Rightarrow> u256"
  SMod :: "u256 \<Rightarrow> u256 \<Rightarrow> u256"
  Exp :: "u256 \<Rightarrow> u256 \<Rightarrow> u256"
  ExtendSign :: "u256 \<Rightarrow> u256 \<Rightarrow> u256"
  AddMod :: "u256 \<Rightarrow> u256 \<Rightarrow> u256 \<Rightarrow> u256"
  MulMod :: "u256 \<Rightarrow> u256 \<Rightarrow> u256 \<Rightarrow> u256"
  Byte :: "u256 \<Rightarrow> u256 \<Rightarrow> u256"
  SRsh :: "u256 \<Rightarrow> nat \<Rightarrow> u256"

record PrecompiledContract =
  RequiredGas :: "bytes \<Rightarrow> u64"
  precompiled_Run :: "bytes \<Rightarrow> bytes \<times> evm_error option"

record 's Context =
  sdb :: "'s StateDB"
  CanTransfer :: "'s \<Rightarrow> address \<Rightarrow> int \<Rightarrow> bool"
  Transfer :: "'s \<Rightarrow> address \<Rightarrow> address \<Rightarrow> int \<Rightarrow> 's"
  GetHash :: "u64 \<Rightarrow> hash"
  Coinbase :: address
  GasLimit :: u64
  BlockNumber :: int
  Time :: u64
  BaseFee :: int
  Random :: "hash option"
  Origin :: address
  GasPrice :: int
  BlobHashes :: "hash list"
  ChainID :: int
  EnablePreimageRecording :: bool
  precompile :: "address \<Rightarrow> PrecompiledContract option"
  u256lib :: uint256_lib
  keccak256 :: "bytes \<Rightarrow> hash"
  CreateAddress :: "address \<Rightarrow> u64 \<Rightarrow> address"
  CreateAddress2 :: "address \<Rightarrow> hash \<Rightarrow> hash \<Rightarrow> address"

text \<open>
  The mutable part of \<open>EVM\<close> and of its one \<open>EVMInterpreter\<close>. \<open>jumpdests\<close> is the map shared by the
  contracts of the running call and \<open>TrueAccessList\<close> the list that the calls pass on by reference.
\<close>

record 's EVM =
  state :: 's
  depth :: int
  callGasTemp :: u64
  abort :: bool
  readOnly :: bool
  returnData :: bytes
  jumpdests :: jumpdests
  TrueAccessList :: AccessList

definition upd_state :: "('s \<Rightarrow> 's) \<Rightarrow> 's EVM \<Rightarrow> 's EVM" where
  "upd_state f e = e\<lparr>state := f (state e)\<rparr>"

subsection \<open>Memory sizes (\<open>memory_table.go\<close>)\<close>

type_synonym memorySizeFunc = "Stack \<Rightarrow> (u64 \<times> bool) option"

definition mem_region :: "nat \<Rightarrow> nat \<Rightarrow> memorySizeFunc" where
  "mem_region i j st = do { off \<leftarrow> Back i st; l \<leftarrow> Back j st; Some (calcMemSize64 off l) }"

definition mem_fixed :: "u64 \<Rightarrow> memorySizeFunc" where
  "mem_fixed n st = map_option (\<lambda>off. calcMemSize64WithUint off n) (Back 0 st)"

definition mem_two_regions :: "nat \<Rightarrow> nat \<Rightarrow> nat \<Rightarrow> nat \<Rightarrow> memorySizeFunc" where
  "mem_two_regions i j k l st = do {
     (x, overflow) \<leftarrow> mem_region i j st;
     if overflow then Some (0, True)
     else do { (y, overflow) \<leftarrow> mem_region k l st;
               if overflow then Some (0, True)
               else if x > y then Some (x, False) else Some (y, False) } }"

definition memoryKeccak256 :: memorySizeFunc where
  "memoryKeccak256 = mem_region 0 1"

definition memoryCallDataCopy :: memorySizeFunc where
  "memoryCallDataCopy = mem_region 0 2"

definition memoryReturnDataCopy :: memorySizeFunc where
  "memoryReturnDataCopy = mem_region 0 2"

definition memoryCodeCopy :: memorySizeFunc where
  "memoryCodeCopy = mem_region 0 2"

definition memoryExtCodeCopy :: memorySizeFunc where
  "memoryExtCodeCopy = mem_region 1 3"

definition memoryMLoad :: memorySizeFunc where
  "memoryMLoad = mem_fixed 32"

definition memoryMStore8 :: memorySizeFunc where
  "memoryMStore8 = mem_fixed 1"

definition memoryMStore :: memorySizeFunc where
  "memoryMStore = mem_fixed 32"

definition memoryMcopy :: memorySizeFunc where
  "memoryMcopy st = do {
     dst \<leftarrow> Back 0 st; src \<leftarrow> Back 1 st; l \<leftarrow> Back 2 st;
     Some (calcMemSize64 (if src > dst then src else dst) l) }"

definition memoryCreate :: memorySizeFunc where
  "memoryCreate = mem_region 1 2"

definition memoryCreate2 :: memorySizeFunc where
  "memoryCreate2 = mem_region 1 2"

definition memoryCall :: memorySizeFunc where
  "memoryCall = mem_two_regions 5 6 3 4"

definition memoryDelegateCall :: memorySizeFunc where
  "memoryDelegateCall = mem_two_regions 4 5 2 3"

definition memoryStaticCall :: memorySizeFunc where
  "memoryStaticCall = mem_two_regions 4 5 2 3"

definition memoryReturn :: memorySizeFunc where
  "memoryReturn = mem_region 0 1"

definition memoryRevert :: memorySizeFunc where
  "memoryRevert = mem_region 0 1"

definition memoryLog :: memorySizeFunc where
  "memoryLog = mem_region 0 1"

subsection \<open>Gas functions (\<open>gas.go\<close>, \<open>gas_table.go\<close>)\<close>



fun bindE :: "evm_error + 'a \<Rightarrow> ('a \<Rightarrow> evm_error + 'b) \<Rightarrow> evm_error + 'b" where
  "bindE (Inl e) f = Inl e"
| "bindE (Inr a) f = f a"

definition safe_add :: "u64 \<Rightarrow> u64 \<Rightarrow> evm_error + u64" where
  "safe_add x y = (let (s, overflow) = SafeAdd x y in if overflow then Inl ErrGasUintOverflow else Inr s)"

definition safe_mul :: "u64 \<Rightarrow> u64 \<Rightarrow> evm_error + u64" where
  "safe_mul x y = (let (s, overflow) = SafeMul x y in if overflow then Inl ErrGasUintOverflow else Inr s)"

definition as_uint64 :: "u256 \<Rightarrow> evm_error + u64" where
  "as_uint64 w = (let (x, overflow) = Uint64WithOverflow w in if overflow then Inl ErrGasUintOverflow else Inr x)"

type_synonym 's gasFunc =
  "'s Context \<Rightarrow> Contract \<Rightarrow> Stack \<Rightarrow> u64 \<Rightarrow> 's EVM \<Rightarrow> Memory \<Rightarrow> ((evm_error + u64) \<times> 's EVM \<times> Memory) option"

definition callGas :: "bool \<Rightarrow> u64 \<Rightarrow> u64 \<Rightarrow> u256 \<Rightarrow> evm_error + u64" where
  "callGas isEip150 availableGas base callCost =
     (let availableGas = availableGas - base;
          gas = availableGas - availableGas div 64
      in if \<not> IsUint64 callCost \<or> gas < Uint64 callCost then Inr gas
         else if \<not> IsUint64 callCost then Inl ErrGasUintOverflow
         else Inr (Uint64 callCost))"

definition memoryGasCost :: "u64 \<Rightarrow> Memory \<Rightarrow> (evm_error + u64) \<times> Memory" where
  "memoryGasCost newMemSize mem =
     (if newMemSize = 0 then (Inr 0, mem)
      else if newMemSize > 0x1FFFFFFFE0 then (Inl ErrGasUintOverflow, mem)
      else let newMemSizeWords = toWordSize newMemSize;
               newMemSize = newMemSizeWords * 32
           in if unat newMemSize > EVMBase.Len mem
              then let square = newMemSizeWords * newMemSizeWords;
                       linCoef = newMemSizeWords * 3;
                       quadCoef = square div 512;
                       newTotalFee = linCoef + quadCoef;
                       fee = newTotalFee - lastGasCost mem
                   in (Inr fee, mem\<lparr>lastGasCost := newTotalFee\<rparr>)
              else (Inr 0, mem))"

text \<open>The common shape: charge the memory expansion, then add to it (\<open>rest\<close>) unless it fails.\<close>

definition after_memory :: "u64 \<Rightarrow> 's EVM \<Rightarrow> Memory \<Rightarrow> (u64 \<Rightarrow> evm_error + u64) \<Rightarrow> (evm_error + u64) \<times> 's EVM \<times> Memory" where
  "after_memory memorySize evm mem rest =
     (let (r, mem) = memoryGasCost memorySize mem in (bindE r rest, evm, mem))"

definition memoryCopierGas :: "nat \<Rightarrow> 's gasFunc" where
  "memoryCopierGas stackpos ctx contract stack memorySize evm mem = do {
     l \<leftarrow> Back stackpos stack;
     Some (after_memory memorySize evm mem (\<lambda>gas.
       bindE (as_uint64 l) (\<lambda>words.
       bindE (safe_mul (toWordSize words) 3) (\<lambda>words.
       safe_add gas words)))) }"

definition gasCallDataCopy :: "'s gasFunc" where
  "gasCallDataCopy = memoryCopierGas 2"

definition gasCodeCopy :: "'s gasFunc" where
  "gasCodeCopy = memoryCopierGas 2"

definition gasMcopy :: "'s gasFunc" where
  "gasMcopy = memoryCopierGas 2"

definition gasExtCodeCopy :: "'s gasFunc" where
  "gasExtCodeCopy = memoryCopierGas 3"

definition gasReturnDataCopy :: "'s gasFunc" where
  "gasReturnDataCopy = memoryCopierGas 2"

text \<open>
  \<open>gasSStore\<close> and \<open>gasSStoreEIP2200\<close> have the same decision tree; they differ in the prices.
\<close>

definition sstore_net :: "u64 \<Rightarrow> u64 \<Rightarrow> u64 \<Rightarrow> u64 \<Rightarrow> u64 \<Rightarrow> u64 \<Rightarrow> 's gasFunc" where
  "sstore_net noop init clean clear_refund reset_clear_refund reset_refund ctx contract stack memorySize evm mem = do {
     y \<leftarrow> Back 1 stack;
     x \<leftarrow> Back 0 stack;
     let db = sdb ctx; current = GetState db (self contract) x (state evm); val = y in
     if current = val then Some (Inr noop, evm, mem)
     else let original = GetCommittedState db (self contract) x (state evm) in
     if original = current
     then if original = 0 then Some (Inr init, evm, mem)
          else Some (Inr clean, if val = 0 then upd_state (AddRefund db clear_refund) evm else evm, mem)
     else do {
       s \<leftarrow> (if original \<noteq> 0
             then if current = 0 then SubRefund db clear_refund (state evm)
                  else Some (if val = 0 then AddRefund db clear_refund (state evm) else state evm)
             else Some (state evm));
       let s = (if original = val
                then if original = 0 then AddRefund db reset_clear_refund s else AddRefund db reset_refund s
                else s) in
       Some (Inr noop, evm\<lparr>state := s\<rparr>, mem) } }"

definition gasSStore :: "'s gasFunc" where
  "gasSStore = sstore_net 200 20000 5000 15000 19800 4800"

definition gasSStoreEIP2200 :: "'s gasFunc" where
  "gasSStoreEIP2200 ctx contract stack memorySize evm mem =
     (if Gas contract \<le> 2300 then Some (Inl (ErrNew ''not enough gas for reentrancy sentry''), evm, mem)
      else sstore_net 800 20000 5000 15000 (20000 - 800) (5000 - 800) ctx contract stack memorySize evm mem)"

definition makeGasLog :: "u64 \<Rightarrow> 's gasFunc" where
  "makeGasLog n ctx contract stack memorySize evm mem = do {
     w \<leftarrow> Back 1 stack;
     case as_uint64 w of
       Inl e \<Rightarrow> Some (Inl e, evm, mem)
     | Inr requestedSize \<Rightarrow> Some (after_memory memorySize evm mem (\<lambda>gas.
         bindE (safe_add gas 375) (\<lambda>gas.
         bindE (safe_add gas (n * 375)) (\<lambda>gas.
         bindE (safe_mul requestedSize 8) (\<lambda>memorySizeGas.
         safe_add gas memorySizeGas))))) }"

definition word_gas :: "nat \<Rightarrow> u64 \<Rightarrow> 's gasFunc" where
  "word_gas stackpos price ctx contract stack memorySize evm mem = do {
     w \<leftarrow> Back stackpos stack;
     Some (after_memory memorySize evm mem (\<lambda>gas.
       bindE (as_uint64 w) (\<lambda>wordGas.
       bindE (safe_mul (toWordSize wordGas) price) (\<lambda>wordGas.
       safe_add gas wordGas)))) }"

definition gasKeccak256 :: "'s gasFunc" where
  "gasKeccak256 = word_gas 1 6"

definition pureMemoryGascost :: "'s gasFunc" where
  "pureMemoryGascost ctx contract stack memorySize evm mem = Some (after_memory memorySize evm mem Inr)"

definition gasCreate2 :: "'s gasFunc" where
  "gasCreate2 = word_gas 2 6"

definition initcode_gas :: "u64 \<Rightarrow> 's gasFunc" where
  "initcode_gas price ctx contract stack memorySize evm mem = do {
     w \<leftarrow> Back 2 stack;
     Some (after_memory memorySize evm mem (\<lambda>gas.
       let (size', overflow) = Uint64WithOverflow w in
       if overflow \<or> size' > 49152 then Inl ErrGasUintOverflow
       else safe_add gas (price * ((size' + 31) div 32)))) }"

definition gasCreateEip3860 :: "'s gasFunc" where
  "gasCreateEip3860 = initcode_gas 2"

definition gasCreate2Eip3860 :: "'s gasFunc" where
  "gasCreate2Eip3860 = initcode_gas (2 + 6)"

fun BitLen :: "nat \<Rightarrow> nat" where
  "BitLen n = (if n = 0 then 0 else Suc (BitLen (n div 2)))"

declare BitLen.simps [simp del]

definition exp_gas :: "u64 \<Rightarrow> 's gasFunc" where
  "exp_gas price ctx contract stack memorySize evm mem = do {
     w \<leftarrow> Back 1 stack;
     let expByteLen = of_nat ((BitLen (unat w) + 7) div 8) in
     Some (safe_add (expByteLen * price) 10, evm, mem) }"

definition gasExpFrontier :: "'s gasFunc" where
  "gasExpFrontier = exp_gas 10"

definition gasExpEIP158 :: "'s gasFunc" where
  "gasExpEIP158 = exp_gas 50"

text \<open>The common end of the call prices: reserve the gas of the call and add it to the price.\<close>

definition reserve_call_gas :: "u64 \<Rightarrow> u256 \<Rightarrow> Contract \<Rightarrow> 's EVM \<Rightarrow> Memory \<Rightarrow> (evm_error + u64) \<times> 's EVM \<times> Memory" where
  "reserve_call_gas gas callCost contract evm mem =
     (case callGas True (Gas contract) gas callCost of
        Inl e \<Rightarrow> (Inl e, evm\<lparr>callGasTemp := 0\<rparr>, mem)
      | Inr temp \<Rightarrow> (safe_add gas temp, evm\<lparr>callGasTemp := temp\<rparr>, mem))"

definition call_price :: "u64 \<Rightarrow> u256 \<Rightarrow> Contract \<Rightarrow> u64 \<Rightarrow> 's EVM \<Rightarrow> Memory \<Rightarrow> (evm_error + u64) \<times> 's EVM \<times> Memory" where
  "call_price base callCost contract memorySize evm mem =
     (case memoryGasCost memorySize mem of
        (Inl e, mem) \<Rightarrow> (Inl e, evm, mem)
      | (Inr memoryGas, mem) \<Rightarrow>
          (case safe_add base memoryGas of
             Inl e \<Rightarrow> (Inl e, evm, mem)
           | Inr gas \<Rightarrow> reserve_call_gas gas callCost contract evm mem))"

definition gasCall :: "'s gasFunc" where
  "gasCall ctx contract stack memorySize evm mem = do {
     v \<leftarrow> Back 2 stack; a \<leftarrow> Back 1 stack; g \<leftarrow> Back 0 stack;
     let transfersValue = (v \<noteq> 0); address = Bytes20 a;
         gas = (if transfersValue \<and> Empty (sdb ctx) address (state evm) then 25000
                else if \<not> Exist (sdb ctx) address (state evm) then 25000 else 0);
         gas = (if transfersValue then gas + 9000 else gas)
     in Some (call_price gas g contract memorySize evm mem) }"

definition gasCallCode :: "'s gasFunc" where
  "gasCallCode ctx contract stack memorySize evm mem = do {
     v \<leftarrow> Back 2 stack; g \<leftarrow> Back 0 stack;
     Some (call_price (if v \<noteq> 0 then 9000 else 0) g contract memorySize evm mem) }"

definition gasDelegateCall :: "'s gasFunc" where
  "gasDelegateCall ctx contract stack memorySize evm mem = do {
     g \<leftarrow> Back 0 stack; Some (call_price 0 g contract memorySize evm mem) }"

definition gasStaticCall :: "'s gasFunc" where
  "gasStaticCall ctx contract stack memorySize evm mem = do {
     g \<leftarrow> Back 0 stack; Some (call_price 0 g contract memorySize evm mem) }"

definition gasSelfdestruct :: "'s gasFunc" where
  "gasSelfdestruct ctx contract stack memorySize evm mem = do {
     a \<leftarrow> Back 0 stack;
     let db = sdb ctx; address = Bytes20 a; s = state evm;
         gas = (if Empty db address s \<and> GetBalance db (self contract) s \<noteq> 0 then 5000 + 25000
                else if \<not> Exist db address s then 5000 + 25000 else 5000);
         evm = (if \<not> HasSelfDestructed db (self contract) s then upd_state (AddRefund db 24000) evm else evm)
     in Some (Inr gas, evm, mem) }"

end
