(* ===== verification/EVMInstr.thy ===== *)
theory EVMInstr
  imports EVMGas
begin

unbundle bit_operations_syntax

text \<open>
  The instructions of the virtual machine (\<open>instructions.go\<close>, and those of \<open>eips.go\<close>). An instruction
  maps a frame (program counter and \<open>ScopeContext\<close>, with the mutable part of the machine) to its
  result bytes, its error and the next frame; \<open>None\<close> is a panic. The instructions that call other
  contracts (\<open>executeAL\<close>) also return \<open>CanParallel\<close>; the calls themselves (\<open>evm.Call\<close> and its
  variants) are the fields of a record \<open>host\<close>, which \<open>EVMCall\<close> provides.
\<close>

record 's frame =
  pc :: u64
  stack :: Stack
  mem :: Memory
  contract :: Contract
  evm :: "'s EVM"

type_synonym 's step_result = "((bytes \<times> evm_error option) \<times> 's frame) option"
type_synonym 's executionFunc = "'s Context \<Rightarrow> 's frame \<Rightarrow> 's step_result"

definition proceed :: "'s frame \<Rightarrow> 's step_result" where
  "proceed fr = Some (([], None), fr)"

definition raise :: "evm_error \<Rightarrow> 's frame \<Rightarrow> 's step_result" where
  "raise err fr = Some (([], Some err), fr)"

text \<open>\<open>x.pop(); y.peek(); y.op(x, y)\<close>, and the variants with one and three operands.\<close>

definition unary :: "(u256 \<Rightarrow> u256) \<Rightarrow> 's executionFunc" where
  "unary f ctx fr = do { x \<leftarrow> peek (stack fr); proceed (fr\<lparr>stack := poke (f x) (stack fr)\<rparr>) }"

definition binary :: "(u256 \<Rightarrow> u256 \<Rightarrow> u256) \<Rightarrow> 's executionFunc" where
  "binary f ctx fr = do {
     (x, st) \<leftarrow> pop (stack fr); y \<leftarrow> peek st; proceed (fr\<lparr>stack := poke (f x y) st\<rparr>) }"

definition ternary :: "(u256 \<Rightarrow> u256 \<Rightarrow> u256 \<Rightarrow> u256) \<Rightarrow> 's executionFunc" where
  "ternary f ctx fr = do {
     (x, st) \<leftarrow> pop (stack fr); (y, st) \<leftarrow> pop st; z \<leftarrow> peek st; proceed (fr\<lparr>stack := poke (f x y z) st\<rparr>) }"

definition push_value :: "u256 \<Rightarrow> 's frame \<Rightarrow> 's step_result" where
  "push_value v fr = proceed (fr\<lparr>stack := push v (stack fr)\<rparr>)"

definition of_bool256 :: "bool \<Rightarrow> u256" where
  "of_bool256 b = (if b then 1 else 0)"

subsection \<open>Arithmetic, comparison and bits\<close>

definition opAdd :: "'s executionFunc" where
  "opAdd = binary (\<lambda>x y. x + y)"

definition opSub :: "'s executionFunc" where
  "opSub = binary (\<lambda>x y. x - y)"

definition opMul :: "'s executionFunc" where
  "opMul = binary (\<lambda>x y. x * y)"

definition opDiv :: "'s executionFunc" where
  "opDiv ctx = binary (Div (u256lib ctx)) ctx"

definition opSdiv :: "'s executionFunc" where
  "opSdiv ctx = binary (SDiv (u256lib ctx)) ctx"

definition opMod :: "'s executionFunc" where
  "opMod ctx = binary (Mod (u256lib ctx)) ctx"

definition opSmod :: "'s executionFunc" where
  "opSmod ctx = binary (SMod (u256lib ctx)) ctx"

definition opExp :: "'s executionFunc" where
  "opExp ctx = binary (Exp (u256lib ctx)) ctx"

definition opSignExtend :: "'s executionFunc" where
  "opSignExtend ctx = binary (\<lambda>back num. ExtendSign (u256lib ctx) num back) ctx"

definition opNot :: "'s executionFunc" where
  "opNot = unary (\<lambda>x. NOT x)"

definition opLt :: "'s executionFunc" where
  "opLt = binary (\<lambda>x y. of_bool256 (x < y))"

definition opGt :: "'s executionFunc" where
  "opGt = binary (\<lambda>x y. of_bool256 (x > y))"

definition opSlt :: "'s executionFunc" where
  "opSlt = binary (\<lambda>x y. of_bool256 (sint x < sint y))"

definition opSgt :: "'s executionFunc" where
  "opSgt = binary (\<lambda>x y. of_bool256 (sint x > sint y))"

definition opEq :: "'s executionFunc" where
  "opEq = binary (\<lambda>x y. of_bool256 (x = y))"

definition opIszero :: "'s executionFunc" where
  "opIszero = unary (\<lambda>x. of_bool256 (x = 0))"

definition opAnd :: "'s executionFunc" where
  "opAnd = binary (\<lambda>x y. x AND y)"

definition opOr :: "'s executionFunc" where
  "opOr = binary (\<lambda>x y. x OR y)"

definition opXor :: "'s executionFunc" where
  "opXor = binary (\<lambda>x y. x XOR y)"

definition opByte :: "'s executionFunc" where
  "opByte ctx = binary (\<lambda>th val. Byte (u256lib ctx) val th) ctx"

definition opAddmod :: "'s executionFunc" where
  "opAddmod ctx = ternary (\<lambda>x y z. if z = 0 then 0 else AddMod (u256lib ctx) x y z) ctx"

definition opMulmod :: "'s executionFunc" where
  "opMulmod ctx = ternary (MulMod (u256lib ctx)) ctx"

definition opSHL :: "'s executionFunc" where
  "opSHL = binary (\<lambda>shift val. if shift < 256 then push_bit (unat (Uint64 shift)) val else 0)"

definition opSHR :: "'s executionFunc" where
  "opSHR = binary (\<lambda>shift val. if shift < 256 then drop_bit (unat (Uint64 shift)) val else 0)"

definition opSAR :: "'s executionFunc" where
  "opSAR ctx = binary (\<lambda>shift val.
     if shift > 256 then if sint val \<ge> 0 then 0 else NOT 0
     else SRsh (u256lib ctx) val (unat (Uint64 shift))) ctx"

subsection \<open>Environment\<close>

text \<open>\<open>int64(x.Uint64())\<close>\<close>

definition Int64 :: "u256 \<Rightarrow> int" where
  "Int64 x = sint (Uint64 x)"

definition opKeccak256 :: "'s executionFunc" where
  "opKeccak256 ctx fr = do {
     (offset, st) \<leftarrow> pop (stack fr);
     size' \<leftarrow> peek st;
     data' \<leftarrow> GetPtr (Int64 offset) (Int64 size') (mem fr);
     let h = keccak256 ctx data';
         e = (if EnablePreimageRecording ctx then upd_state (AddPreimage (sdb ctx) h data') (evm fr) else evm fr)
     in proceed (fr\<lparr>stack := poke h st, evm := e\<rparr>) }"

definition opAddress :: "'s executionFunc" where
  "opAddress ctx fr = push_value (ucast (self (contract fr))) fr"

definition opBalance :: "'s executionFunc" where
  "opBalance ctx fr = unary (\<lambda>slot. word_of_int (GetBalance (sdb ctx) (Bytes20 slot) (state (evm fr)))) ctx fr"

definition opOrigin :: "'s executionFunc" where
  "opOrigin ctx fr = push_value (ucast (Origin ctx)) fr"

definition opCaller :: "'s executionFunc" where
  "opCaller ctx fr = push_value (ucast (CallerAddress (contract fr))) fr"

definition opCallValue :: "'s executionFunc" where
  "opCallValue ctx fr = do { v \<leftarrow> cvalue (contract fr); push_value (word_of_int v) fr }"

definition opCallDataLoad :: "'s executionFunc" where
  "opCallDataLoad ctx fr = unary (\<lambda>x.
     let (offset, overflow) = Uint64WithOverflow x
     in if \<not> overflow then SetBytes (getData (Input (contract fr)) offset 32) else 0) ctx fr"

definition opCallDataSize :: "'s executionFunc" where
  "opCallDataSize ctx fr = push_value (of_nat (length (Input (contract fr)))) fr"

text \<open>The end of the three copying instructions: source offsets that do not fit 64 bits are clamped.\<close>

definition copy_data :: "bytes \<Rightarrow> u256 \<Rightarrow> u256 \<Rightarrow> u256 \<Rightarrow> Stack \<Rightarrow> 's frame \<Rightarrow> 's step_result" where
  "copy_data src memOffset dataOffset len st fr =
     (let (off64, overflow) = Uint64WithOverflow dataOffset;
          off64 = (if overflow then 0xffffffffffffffff else off64)
      in do { m \<leftarrow> Set (Uint64 memOffset) (Uint64 len) (getData src off64 (Uint64 len)) (mem fr);
              proceed (fr\<lparr>stack := st, mem := m\<rparr>) })"

definition opCallDataCopy :: "'s executionFunc" where
  "opCallDataCopy ctx fr = do {
     (memOffset, st) \<leftarrow> pop (stack fr); (dataOffset, st) \<leftarrow> pop st; (len, st) \<leftarrow> pop st;
     copy_data (Input (contract fr)) memOffset dataOffset len st fr }"

definition opReturnDataSize :: "'s executionFunc" where
  "opReturnDataSize ctx fr = push_value (of_nat (length (returnData (evm fr)))) fr"

definition opReturnDataCopy :: "'s executionFunc" where
  "opReturnDataCopy ctx fr = do {
     (memOffset, st) \<leftarrow> pop (stack fr); (dataOffset, st) \<leftarrow> pop st; (len, st) \<leftarrow> pop st;
     let (offset64, overflow) = Uint64WithOverflow dataOffset in
     if overflow then raise ErrReturnDataOutOfBounds (fr\<lparr>stack := st\<rparr>)
     else let (end64, overflow) = Uint64WithOverflow (dataOffset + len) in
     if overflow \<or> length (returnData (evm fr)) < unat end64
     then raise ErrReturnDataOutOfBounds (fr\<lparr>stack := st\<rparr>)
     else do { d \<leftarrow> go_slice (uint offset64) (uint end64) (returnData (evm fr));
               m \<leftarrow> Set (Uint64 memOffset) (Uint64 len) d (mem fr);
               proceed (fr\<lparr>stack := st, mem := m\<rparr>) } }"

definition opExtCodeSize :: "'s executionFunc" where
  "opExtCodeSize ctx fr = unary (\<lambda>slot. of_nat (GetCodeSize (sdb ctx) (Bytes20 slot) (state (evm fr)))) ctx fr"

definition opCodeSize :: "'s executionFunc" where
  "opCodeSize ctx fr = push_value (of_nat (length (Code (contract fr)))) fr"

definition opCodeCopy :: "'s executionFunc" where
  "opCodeCopy ctx fr = do {
     (memOffset, st) \<leftarrow> pop (stack fr); (codeOffset, st) \<leftarrow> pop st; (len, st) \<leftarrow> pop st;
     copy_data (Code (contract fr)) memOffset codeOffset len st fr }"

definition opExtCodeCopy :: "'s executionFunc" where
  "opExtCodeCopy ctx fr = do {
     (a, st) \<leftarrow> pop (stack fr); (memOffset, st) \<leftarrow> pop st; (codeOffset, st) \<leftarrow> pop st; (len, st) \<leftarrow> pop st;
     copy_data (GetCode (sdb ctx) (Bytes20 a) (state (evm fr))) memOffset codeOffset len st fr }"

definition opExtCodeHash :: "'s executionFunc" where
  "opExtCodeHash ctx fr = unary (\<lambda>slot.
     if Empty (sdb ctx) (Bytes20 slot) (state (evm fr)) then 0
     else GetCodeHash (sdb ctx) (Bytes20 slot) (state (evm fr))) ctx fr"

definition opGasprice :: "'s executionFunc" where
  "opGasprice ctx fr = push_value (word_of_int (GasPrice ctx)) fr"

definition opBlockhash :: "'s executionFunc" where
  "opBlockhash ctx fr = unary (\<lambda>num.
     let (num64, overflow) = Uint64WithOverflow num in
     if overflow then 0
     else let upper = (word_of_int (BlockNumber ctx) :: u64);
              lower = (if upper < 257 then 0 else upper - 256)
          in if num64 \<ge> lower \<and> num64 < upper then GetHash ctx num64 else 0) ctx fr"

definition opCoinbase :: "'s executionFunc" where
  "opCoinbase ctx fr = push_value (ucast (Coinbase ctx)) fr"

definition opTimestamp :: "'s executionFunc" where
  "opTimestamp ctx fr = push_value (ucast (Time ctx)) fr"

definition opNumber :: "'s executionFunc" where
  "opNumber ctx fr = push_value (word_of_int (BlockNumber ctx)) fr"

definition opDifficulty :: "'s executionFunc" where
  "opDifficulty ctx fr = push_value 0 fr"

definition opRandom :: "'s executionFunc" where
  "opRandom ctx fr = do { r \<leftarrow> Random ctx; push_value r fr }"

definition opGasLimit :: "'s executionFunc" where
  "opGasLimit ctx fr = push_value (ucast (GasLimit ctx)) fr"

subsection \<open>Stack, memory, storage and flow\<close>

definition opPop :: "'s executionFunc" where
  "opPop ctx fr = do { (_, st) \<leftarrow> pop (stack fr); proceed (fr\<lparr>stack := st\<rparr>) }"

definition opMload :: "'s executionFunc" where
  "opMload ctx fr = do {
     v \<leftarrow> peek (stack fr);
     d \<leftarrow> GetPtr (Int64 v) 32 (mem fr);
     proceed (fr\<lparr>stack := poke (SetBytes d) (stack fr)\<rparr>) }"

definition opMstore :: "'s executionFunc" where
  "opMstore ctx fr = do {
     (mStart, st) \<leftarrow> pop (stack fr); (val, st) \<leftarrow> pop st;
     m \<leftarrow> Set32 (Uint64 mStart) val (mem fr);
     proceed (fr\<lparr>stack := st, mem := m\<rparr>) }"

definition opMstore8 :: "'s executionFunc" where
  "opMstore8 ctx fr = do {
     (off, st) \<leftarrow> pop (stack fr); (val, st) \<leftarrow> pop st;
     let i = unat (Uint64 off) in
     if i < EVMBase.Len (mem fr)
     then proceed (fr\<lparr>stack := st, mem := (mem fr)\<lparr>store := (store (mem fr))[i := ucast (Uint64 val)]\<rparr>\<rparr>)
     else None }"

definition opSload :: "'s executionFunc" where
  "opSload ctx fr = unary (\<lambda>loc. GetState (sdb ctx) (self (contract fr)) loc (state (evm fr))) ctx fr"

definition opSstore :: "'s executionFunc" where
  "opSstore ctx fr =
     (if readOnly (evm fr) then raise ErrWriteProtection fr
      else do {
        (loc, st) \<leftarrow> pop (stack fr); (val, st) \<leftarrow> pop st;
        proceed (fr\<lparr>stack := st, evm := upd_state (SetState (sdb ctx) (self (contract fr)) loc val) (evm fr)\<rparr>) })"

text \<open>The jump itself: check the target, then set the counter one before it.\<close>

definition jump_to :: "u256 \<Rightarrow> 's frame \<Rightarrow> 's step_result" where
  "jump_to pos fr = do {
     (valid, jd, c) \<leftarrow> validJumpdest pos (jumpdests (evm fr)) (contract fr);
     let fr = fr\<lparr>contract := c, evm := (evm fr)\<lparr>jumpdests := jd\<rparr>\<rparr> in
     if \<not> valid then raise ErrInvalidJump fr
     else proceed (fr\<lparr>pc := Uint64 pos - 1\<rparr>) }"

definition opJump :: "'s executionFunc" where
  "opJump ctx fr =
     (if abort (evm fr) then raise errStopToken fr
      else do { (pos, st) \<leftarrow> pop (stack fr); jump_to pos (fr\<lparr>stack := st\<rparr>) })"

definition opJumpi :: "'s executionFunc" where
  "opJumpi ctx fr =
     (if abort (evm fr) then raise errStopToken fr
      else do {
        (pos, st) \<leftarrow> pop (stack fr); (cond, st) \<leftarrow> pop st;
        if cond \<noteq> 0 then jump_to pos (fr\<lparr>stack := st\<rparr>) else proceed (fr\<lparr>stack := st\<rparr>) })"

definition opJumpdest :: "'s executionFunc" where
  "opJumpdest ctx fr = proceed fr"

definition opPc :: "'s executionFunc" where
  "opPc ctx fr = push_value (ucast (pc fr)) fr"

definition opMsize :: "'s executionFunc" where
  "opMsize ctx fr = push_value (of_nat (EVMBase.Len (mem fr))) fr"

definition opGas :: "'s executionFunc" where
  "opGas ctx fr = push_value (ucast (Gas (contract fr))) fr"

definition opReturn :: "'s executionFunc" where
  "opReturn ctx fr = do {
     (offset, st) \<leftarrow> pop (stack fr); (size', st) \<leftarrow> pop st;
     ret \<leftarrow> GetPtr (Int64 offset) (Int64 size') (mem fr);
     Some ((ret, Some errStopToken), fr\<lparr>stack := st\<rparr>) }"

definition opRevert :: "'s executionFunc" where
  "opRevert ctx fr = do {
     (offset, st) \<leftarrow> pop (stack fr); (size', st) \<leftarrow> pop st;
     ret \<leftarrow> GetPtr (Int64 offset) (Int64 size') (mem fr);
     Some ((ret, Some ErrExecutionReverted), fr\<lparr>stack := st, evm := (evm fr)\<lparr>returnData := ret\<rparr>\<rparr>) }"

definition opUndefined :: "'s executionFunc" where
  "opUndefined ctx fr =
     (if unat (pc fr) < length (Code (contract fr))
      then raise (ErrInvalidOpCode (Code (contract fr) ! unat (pc fr))) fr else None)"

definition opStop :: "'s executionFunc" where
  "opStop ctx fr = raise errStopToken fr"

definition opSelfdestruct :: "'s executionFunc" where
  "opSelfdestruct ctx fr =
     (if readOnly (evm fr) then raise ErrWriteProtection fr
      else do {
        (beneficiary, st) \<leftarrow> pop (stack fr);
        let db = sdb ctx; me = self (contract fr);
            balance = GetBalance db me (state (evm fr));
            e = upd_state (AddBalance db (Bytes20 beneficiary) balance) (evm fr);
            e = upd_state (SelfDestruct db me) e
        in raise errStopToken (fr\<lparr>stack := st, evm := e\<rparr>) })"

definition opSelfdestruct6780 :: "'s executionFunc" where
  "opSelfdestruct6780 ctx fr =
     (if readOnly (evm fr) then raise ErrWriteProtection fr
      else do {
        (beneficiary, st) \<leftarrow> pop (stack fr);
        let db = sdb ctx; me = self (contract fr);
            balance = GetBalance db me (state (evm fr));
            e = upd_state (SubBalance db me balance) (evm fr);
            e = upd_state (AddBalance db (Bytes20 beneficiary) balance) e;
            e = upd_state (Selfdestruct6780 db me) e
        in raise errStopToken (fr\<lparr>stack := st, evm := e\<rparr>) })"

fun pops :: "nat \<Rightarrow> Stack \<Rightarrow> (u256 list \<times> Stack) option" where
  "pops 0 st = Some ([], st)"
| "pops (Suc n) st = do { (x, st) \<leftarrow> pop st; (xs, st) \<leftarrow> pops n st; Some (x # xs, st) }"

definition makeLog :: "nat \<Rightarrow> 's executionFunc" where
  "makeLog n ctx fr =
     (if readOnly (evm fr) then raise ErrWriteProtection fr
      else do {
        (mStart, st) \<leftarrow> pop (stack fr); (mSize, st) \<leftarrow> pop st;
        (topics, st) \<leftarrow> pops n st;
        d \<leftarrow> GetCopy (Int64 mStart) (Int64 mSize) (mem fr);
        let l = \<lparr>log_Address = self (contract fr), Topics = topics, log_Data = d,
                 log_BlockNumber = word_of_int (BlockNumber ctx)\<rparr>
        in proceed (fr\<lparr>stack := st, evm := upd_state (AddLog (sdb ctx) l) (evm fr)\<rparr>) })"

definition opPush1 :: "'s executionFunc" where
  "opPush1 ctx fr =
     (let fr = fr\<lparr>pc := pc fr + 1\<rparr> in
      if unat (pc fr) < length (Code (contract fr))
      then push_value (ucast (Code (contract fr) ! unat (pc fr))) fr
      else push_value 0 fr)"

definition makePush :: "u64 \<Rightarrow> nat \<Rightarrow> 's executionFunc" where
  "makePush n pushByteSize ctx fr =
     (let code = Code (contract fr);
          codeLen = int (length code);
          startMin = (if sint (pc fr + 1) < codeLen then sint (pc fr + 1) else codeLen);
          endMin = (if startMin + int pushByteSize < codeLen then startMin + int pushByteSize else codeLen)
      in do { d \<leftarrow> go_slice startMin endMin code;
              push_value (SetBytes (RightPadBytes d pushByteSize)) (fr\<lparr>pc := pc fr + n\<rparr>) })"

definition makeDup :: "nat \<Rightarrow> 's executionFunc" where
  "makeDup n ctx fr = do { st \<leftarrow> dup n (stack fr); proceed (fr\<lparr>stack := st\<rparr>) }"

definition makeSwap :: "nat \<Rightarrow> 's executionFunc" where
  "makeSwap n ctx fr = do { st \<leftarrow> swap (n + 1) (stack fr); proceed (fr\<lparr>stack := st\<rparr>) }"

subsection \<open>Instructions of later forks (\<open>eips.go\<close>)\<close>

definition opSelfBalance :: "'s executionFunc" where
  "opSelfBalance ctx fr = push_value (word_of_int (GetBalance (sdb ctx) (self (contract fr)) (state (evm fr)))) fr"

definition opChainID :: "'s executionFunc" where
  "opChainID ctx fr = push_value (word_of_int (ChainID ctx)) fr"

definition opTload :: "'s executionFunc" where
  "opTload ctx fr = unary (\<lambda>loc. GetTransientState (sdb ctx) (self (contract fr)) loc (state (evm fr))) ctx fr"

definition opTstore :: "'s executionFunc" where
  "opTstore ctx fr =
     (if readOnly (evm fr) then raise ErrWriteProtection fr
      else do {
        (loc, st) \<leftarrow> pop (stack fr); (val, st) \<leftarrow> pop st;
        proceed (fr\<lparr>stack := st, evm := upd_state (SetTransientState (sdb ctx) (self (contract fr)) loc val) (evm fr)\<rparr>) })"

definition opBaseFee :: "'s executionFunc" where
  "opBaseFee ctx fr = push_value (word_of_int (BaseFee ctx)) fr"

definition opPush0 :: "'s executionFunc" where
  "opPush0 ctx fr = push_value 0 fr"

definition opMcopy :: "'s executionFunc" where
  "opMcopy ctx fr = do {
     (dst, st) \<leftarrow> pop (stack fr); (src, st) \<leftarrow> pop st; (len, st) \<leftarrow> pop st;
     m \<leftarrow> mem_Copy (Uint64 dst) (Uint64 src) (Uint64 len) (mem fr);
     proceed (fr\<lparr>stack := st, mem := m\<rparr>) }"

definition opBlobHash :: "'s executionFunc" where
  "opBlobHash ctx fr = unary (\<lambda>index.
     if index < of_nat (length (BlobHashes ctx)) then BlobHashes ctx ! unat (Uint64 index) else 0) ctx fr"

subsection \<open>Calls and creations\<close>

type_synonym 's call_result = "((bytes \<times> u64 \<times> bool \<times> evm_error option) \<times> 's EVM) option"
type_synonym 's create_result = "((bytes \<times> address \<times> u64 \<times> bool \<times> evm_error option) \<times> 's EVM) option"

record 's host =
  host_Call :: "ContractRef \<Rightarrow> address \<Rightarrow> bytes \<Rightarrow> u64 \<Rightarrow> int \<Rightarrow> bool \<Rightarrow> 's EVM \<Rightarrow> 's call_result"
  host_CallCode :: "ContractRef \<Rightarrow> address \<Rightarrow> bytes \<Rightarrow> u64 \<Rightarrow> int \<Rightarrow> bool \<Rightarrow> 's EVM \<Rightarrow> 's call_result"
  host_DelegateCall :: "ContractRef \<Rightarrow> address \<Rightarrow> bytes \<Rightarrow> u64 \<Rightarrow> bool \<Rightarrow> 's EVM \<Rightarrow> 's call_result"
  host_StaticCall :: "ContractRef \<Rightarrow> address \<Rightarrow> bytes \<Rightarrow> u64 \<Rightarrow> bool \<Rightarrow> 's EVM \<Rightarrow> 's call_result"
  host_Create :: "ContractRef \<Rightarrow> bytes \<Rightarrow> u64 \<Rightarrow> int \<Rightarrow> bool \<Rightarrow> 's EVM \<Rightarrow> 's create_result"
  host_Create2 :: "ContractRef \<Rightarrow> bytes \<Rightarrow> u64 \<Rightarrow> int \<Rightarrow> u256 \<Rightarrow> bool \<Rightarrow> 's EVM \<Rightarrow> 's create_result"

type_synonym 's executionFuncAL =
  "'s host \<Rightarrow> bool \<Rightarrow> 's frame \<Rightarrow> ((bytes \<times> evm_error option \<times> bool) \<times> 's frame) option"

definition as_caller :: "Contract \<Rightarrow> ContractRef" where
  "as_caller c = ContractCaller (self c) (CallerAddress c) (cvalue c)"

text \<open>\<open>gas -= gas / 64; UseGas(gas)\<close> before a creation.\<close>

definition creation_gas :: "Contract \<Rightarrow> u64 \<times> Contract" where
  "creation_gas c = (let gas = Gas c - Gas c div 64 in (gas, snd (UseGas gas c)))"

definition after_create ::
    "Stack \<Rightarrow> Contract \<Rightarrow> 's frame \<Rightarrow> (bytes \<times> address \<times> u64 \<times> bool \<times> evm_error option) \<times> 's EVM
       \<Rightarrow> (bytes \<times> evm_error option \<times> bool) \<times> 's frame" where
  "after_create st c fr r =
     (case r of ((res, addr, returnGas, canParallel, suberr), e) \<Rightarrow>
        let stackvalue = (if suberr \<noteq> None then 0 else ucast addr);
            fr = fr\<lparr>stack := push stackvalue st, contract := c\<lparr>Gas := Gas c + returnGas\<rparr>\<rparr>
        in if suberr = Some ErrExecutionReverted
           then ((res, None, canParallel), fr\<lparr>evm := e\<lparr>returnData := res\<rparr>\<rparr>)
           else (([], None, canParallel), fr\<lparr>evm := e\<lparr>returnData := []\<rparr>\<rparr>))"

definition opCreate :: "'s executionFuncAL" where
  "opCreate h isParallel fr =
     (if readOnly (evm fr) then Some (([], Some ErrWriteProtection, True), fr)
      else do {
        (val, st) \<leftarrow> pop (stack fr); (offset, st) \<leftarrow> pop st; (size', st) \<leftarrow> pop st;
        inp \<leftarrow> GetCopy (Int64 offset) (Int64 size') (mem fr);
        let (gas, c) = creation_gas (contract fr) in do {
        r \<leftarrow> host_Create h (as_caller c) inp gas (uint val) isParallel (evm fr);
        Some (after_create st c fr r) } })"

definition opCreate2 :: "'s executionFuncAL" where
  "opCreate2 h isParallel fr =
     (if readOnly (evm fr) then Some (([], Some ErrWriteProtection, True), fr)
      else do {
        (endowment, st) \<leftarrow> pop (stack fr); (offset, st) \<leftarrow> pop st; (size', st) \<leftarrow> pop st; (salt, st) \<leftarrow> pop st;
        inp \<leftarrow> GetCopy (Int64 offset) (Int64 size') (mem fr);
        let (gas, c) = creation_gas (contract fr) in do {
        r \<leftarrow> host_Create2 h (as_caller c) inp gas (uint endowment) salt isParallel (evm fr);
        Some (after_create st c fr r) } })"

definition after_call ::
    "u256 \<Rightarrow> u256 \<Rightarrow> Stack \<Rightarrow> 's frame \<Rightarrow> (bytes \<times> u64 \<times> bool \<times> evm_error option) \<times> 's EVM
       \<Rightarrow> ((bytes \<times> evm_error option \<times> bool) \<times> 's frame) option" where
  "after_call retOffset retSize st fr r =
     (case r of ((ret, returnGas, canParallel, err), e) \<Rightarrow> do {
        m \<leftarrow> (if err = None \<or> err = Some ErrExecutionReverted
              then Set (Uint64 retOffset) (Uint64 retSize) ret (mem fr) else Some (mem fr));
        let c = contract fr in
        Some ((ret, None, canParallel),
              fr\<lparr>stack := push (of_bool256 (err = None)) st, mem := m,
                 contract := c\<lparr>Gas := Gas c + returnGas\<rparr>, evm := e\<lparr>returnData := ret\<rparr>\<rparr>) })"

definition opCall :: "'s executionFuncAL" where
  "opCall h isParallel fr = do {
     (_, st) \<leftarrow> pop (stack fr);
     (addr, st) \<leftarrow> pop st; (val, st) \<leftarrow> pop st; (inOffset, st) \<leftarrow> pop st; (inSize, st) \<leftarrow> pop st;
     (retOffset, st) \<leftarrow> pop st; (retSize, st) \<leftarrow> pop st;
     args \<leftarrow> GetPtr (Int64 inOffset) (Int64 inSize) (mem fr);
     if readOnly (evm fr) \<and> val \<noteq> 0 then Some (([], Some ErrWriteProtection, True), fr\<lparr>stack := st\<rparr>)
     else let gas = callGasTemp (evm fr); gas = (if val \<noteq> 0 then gas + 2300 else gas) in do {
       r \<leftarrow> host_Call h (as_caller (contract fr)) (Bytes20 addr) args gas (uint val) isParallel (evm fr);
       after_call retOffset retSize st fr r } }"

definition opCallCode :: "'s executionFuncAL" where
  "opCallCode h isParallel fr = do {
     (_, st) \<leftarrow> pop (stack fr);
     (addr, st) \<leftarrow> pop st; (val, st) \<leftarrow> pop st; (inOffset, st) \<leftarrow> pop st; (inSize, st) \<leftarrow> pop st;
     (retOffset, st) \<leftarrow> pop st; (retSize, st) \<leftarrow> pop st;
     args \<leftarrow> GetPtr (Int64 inOffset) (Int64 inSize) (mem fr);
     let gas = callGasTemp (evm fr); gas = (if val \<noteq> 0 then gas + 2300 else gas) in do {
       r \<leftarrow> host_CallCode h (as_caller (contract fr)) (Bytes20 addr) args gas (uint val) isParallel (evm fr);
       after_call retOffset retSize st fr r } }"

definition opDelegateCall :: "'s executionFuncAL" where
  "opDelegateCall h isParallel fr = do {
     (_, st) \<leftarrow> pop (stack fr);
     (addr, st) \<leftarrow> pop st; (inOffset, st) \<leftarrow> pop st; (inSize, st) \<leftarrow> pop st;
     (retOffset, st) \<leftarrow> pop st; (retSize, st) \<leftarrow> pop st;
     args \<leftarrow> GetPtr (Int64 inOffset) (Int64 inSize) (mem fr);
     r \<leftarrow> host_DelegateCall h (as_caller (contract fr)) (Bytes20 addr) args (callGasTemp (evm fr)) isParallel (evm fr);
     after_call retOffset retSize st fr r }"

definition opStaticCall :: "'s executionFuncAL" where
  "opStaticCall h isParallel fr = do {
     (_, st) \<leftarrow> pop (stack fr);
     (addr, st) \<leftarrow> pop st; (inOffset, st) \<leftarrow> pop st; (inSize, st) \<leftarrow> pop st;
     (retOffset, st) \<leftarrow> pop st; (retSize, st) \<leftarrow> pop st;
     args \<leftarrow> GetPtr (Int64 inOffset) (Int64 inSize) (mem fr);
     r \<leftarrow> host_StaticCall h (as_caller (contract fr)) (Bytes20 addr) args (callGasTemp (evm fr)) isParallel (evm fr);
     after_call retOffset retSize st fr r }"

end
