(* ===== verification/EVMTable.thy ===== *)
theory EVMTable
  imports EVMInstr
begin

text \<open>
  The jump table (\<open>jump_table.go\<close>). \<open>NewEVMInterpreter\<close> always selects the frontier table, so it is the
  one that runs; its entries are grouped by range. An absent function pointer is \<open>None\<close>.
\<close>

record 's operation =
  execute :: "'s executionFunc option"
  executeAL :: "'s executionFuncAL option"
  constantGas :: u64
  dynamicGas :: "'s gasFunc option"
  min_stack :: nat
  max_stack :: nat
  memorySize :: "memorySizeFunc option"

text \<open>The four shapes of entries; \<open>i\<close> operands are popped and \<open>j\<close> results pushed.\<close>

definition plain :: "'s executionFunc \<Rightarrow> u64 \<Rightarrow> nat \<Rightarrow> nat \<Rightarrow> 's operation" where
  "plain f g i j = \<lparr>execute = Some f, executeAL = None, constantGas = g, dynamicGas = None,
     min_stack = minStack i j, max_stack = maxStack i j, memorySize = None\<rparr>"

definition metered :: "'s executionFunc \<Rightarrow> u64 \<Rightarrow> 's gasFunc \<Rightarrow> nat \<Rightarrow> nat \<Rightarrow> 's operation" where
  "metered f g d i j = (plain f g i j)\<lparr>dynamicGas := Some d\<rparr>"

definition sized :: "'s executionFunc \<Rightarrow> u64 \<Rightarrow> 's gasFunc \<Rightarrow> memorySizeFunc \<Rightarrow> nat \<Rightarrow> nat \<Rightarrow> 's operation" where
  "sized f g d m i j = (plain f g i j)\<lparr>dynamicGas := Some d, memorySize := Some m\<rparr>"

definition calling :: "'s executionFuncAL \<Rightarrow> u64 \<Rightarrow> 's gasFunc \<Rightarrow> memorySizeFunc \<Rightarrow> nat \<Rightarrow> nat \<Rightarrow> 's operation" where
  "calling f g d m i j = \<lparr>execute = None, executeAL = Some f, constantGas = g, dynamicGas = Some d,
     min_stack = minStack i j, max_stack = maxStack i j, memorySize = Some m\<rparr>"

definition frontier_arith :: "(u8 \<times> 's operation) list" where
  "frontier_arith = [
     (0x00, plain opStop 0 0 0),
     (0x01, plain opAdd 3 2 1),
     (0x02, plain opMul 5 2 1),
     (0x03, plain opSub 3 2 1),
     (0x04, plain opDiv 5 2 1),
     (0x05, plain opSdiv 5 2 1),
     (0x06, plain opMod 5 2 1),
     (0x07, plain opSmod 5 2 1),
     (0x08, plain opAddmod 8 3 1),
     (0x09, plain opMulmod 8 3 1),
     (0x0a, metered opExp 0 gasExpFrontier 2 1),
     (0x0b, plain opSignExtend 5 2 1),
     (0x10, plain opLt 3 2 1),
     (0x11, plain opGt 3 2 1),
     (0x12, plain opSlt 3 2 1),
     (0x13, plain opSgt 3 2 1),
     (0x14, plain opEq 3 2 1),
     (0x15, plain opIszero 3 1 1),
     (0x16, plain opAnd 3 2 1),
     (0x18, plain opXor 3 2 1),
     (0x17, plain opOr 3 2 1),
     (0x19, plain opNot 3 1 1),
     (0x1a, plain opByte 3 2 1),
     (0x20, sized opKeccak256 30 gasKeccak256 memoryKeccak256 2 1)]"

definition frontier_env :: "(u8 \<times> 's operation) list" where
  "frontier_env = [
     (0x30, plain opAddress 2 0 1),
     (0x31, plain opBalance 20 1 1),
     (0x32, plain opOrigin 2 0 1),
     (0x33, plain opCaller 2 0 1),
     (0x34, plain opCallValue 2 0 1),
     (0x35, plain opCallDataLoad 3 1 1),
     (0x36, plain opCallDataSize 2 0 1),
     (0x37, sized opCallDataCopy 3 gasCallDataCopy memoryCallDataCopy 3 0),
     (0x38, plain opCodeSize 2 0 1),
     (0x39, sized opCodeCopy 3 gasCodeCopy memoryCodeCopy 3 0),
     (0x3a, plain opGasprice 2 0 1),
     (0x3b, plain opExtCodeSize 20 1 1),
     (0x3c, sized opExtCodeCopy 20 gasExtCodeCopy memoryExtCodeCopy 4 0),
     (0x40, plain opBlockhash 20 1 1),
     (0x41, plain opCoinbase 2 0 1),
     (0x42, plain opTimestamp 2 0 1),
     (0x43, plain opNumber 2 0 1),
     (0x44, plain opDifficulty 2 0 1),
     (0x45, plain opGasLimit 2 0 1)]"

definition frontier_flow :: "(u8 \<times> 's operation) list" where
  "frontier_flow = [
     (0x50, plain opPop 2 1 0),
     (0x51, sized opMload 3 pureMemoryGascost memoryMLoad 1 1),
     (0x52, sized opMstore 3 pureMemoryGascost memoryMStore 2 0),
     (0x53, sized opMstore8 3 pureMemoryGascost memoryMStore8 2 0),
     (0x54, plain opSload 50 1 1),
     (0x55, metered opSstore 0 gasSStore 2 0),
     (0x56, plain opJump 8 1 0),
     (0x57, plain opJumpi 10 2 0),
     (0x58, plain opPc 2 0 1),
     (0x59, plain opMsize 2 0 1),
     (0x5a, plain opGas 2 0 1),
     (0x5b, plain opJumpdest 1 0 0)]"

definition frontier_log :: "(u8 \<times> 's operation) list" where
  "frontier_log = [
     (0xa0, sized (makeLog 0) 0 (makeGasLog 0) memoryLog 2 0),
     (0xa1, sized (makeLog 1) 0 (makeGasLog 1) memoryLog 3 0),
     (0xa2, sized (makeLog 2) 0 (makeGasLog 2) memoryLog 4 0),
     (0xa3, sized (makeLog 3) 0 (makeGasLog 3) memoryLog 5 0),
     (0xa4, sized (makeLog 4) 0 (makeGasLog 4) memoryLog 6 0)]"

definition frontier_sys :: "(u8 \<times> 's operation) list" where
  "frontier_sys = [
     (0xf0, calling opCreate 32000 pureMemoryGascost memoryCreate 3 1),
     (0xf1, calling opCall 40 gasCall memoryCall 7 1),
     (0xf2, calling opCallCode 40 gasCallCode memoryCall 7 1),
     (0xf3, sized opReturn 0 pureMemoryGascost memoryReturn 2 0),
     (0xff, metered opSelfdestruct 0 gasSelfdestruct 1 0)]"

definition frontier_push :: "(u8 \<times> 's operation) list" where
  "frontier_push = (0x60, plain opPush1 3 0 1) #
     map (\<lambda>n. (0x5f + of_nat n, plain (makePush (of_nat n) n) 3 0 1)) [2..<33]"

definition frontier_dup :: "(u8 \<times> 's operation) list" where
  "frontier_dup = map (\<lambda>n. (0x7f + of_nat n,
     (plain (makeDup n) 3 0 0)\<lparr>min_stack := minDupStack n, max_stack := maxDupStack n\<rparr>)) [1..<17]"

definition frontier_swap :: "(u8 \<times> 's operation) list" where
  "frontier_swap = map (\<lambda>n. (0x8f + of_nat n,
     (plain (makeSwap n) 3 0 0)\<lparr>min_stack := minSwapStack (n + 1), max_stack := maxSwapStack (n + 1)\<rparr>)) [1..<17]"

definition frontier_entries :: "(u8 \<times> 's operation) list" where
  "frontier_entries = frontier_arith @ frontier_env @ frontier_flow @ frontier_push @ frontier_dup @
     frontier_swap @ frontier_log @ frontier_sys"

definition undefined_operation :: "'s operation" where
  "undefined_operation = \<lparr>execute = Some opUndefined, executeAL = None, constantGas = 0, dynamicGas = None,
     min_stack = 0, max_stack = maxStack 0 0, memorySize = None\<rparr>"

definition newFrontierInstructionSet :: "u8 \<Rightarrow> 's operation" where
  "newFrontierInstructionSet op =
     (case map_of frontier_entries op of Some entry \<Rightarrow> entry | None \<Rightarrow> undefined_operation)"

end
