(* ===== verification/EVMRun.thy ===== *)
theory EVMRun
  imports EVMTable
begin

text \<open>
  The interpreter loop (\<open>interpreter.go\<close>) and the access list it observes (\<open>true_accesslist.go\<close>).

  \<open>run_step\<close> is one iteration of the loop of \<open>Run\<close>: it continues with a new frame, returns, or
  panics (\<open>None\<close>). \<open>run_loop\<close> iterates it; it is a partial function whose outer \<open>None\<close> is a loop that
  never ends and whose inner \<open>None\<close> is a panic. \<open>Run\<close> wraps it with the call depth and the
  read-only flag.
\<close>

subsection \<open>Observed access list\<close>

definition CREATE :: u8 where "CREATE = 0xf0"
definition CALL :: u8 where "CALL = 0xf1"
definition CALLCODE :: u8 where "CALLCODE = 0xf2"
definition DELEGATECALL :: u8 where "DELEGATECALL = 0xf4"
definition CREATE2 :: u8 where "CREATE2 = 0xf5"
definition STATICCALL :: u8 where "STATICCALL = 0xfa"

definition is_call :: "u8 \<Rightarrow> bool" where
  "is_call op \<longleftrightarrow> op = DELEGATECALL \<or> op = CALL \<or> op = STATICCALL \<or> op = CALLCODE"

definition is_create :: "u8 \<Rightarrow> bool" where
  "is_create op \<longleftrightarrow> op = CREATE \<or> op = CREATE2"

definition note_address :: "address \<Rightarrow> AccessList \<Rightarrow> AccessList" where
  "note_address addr al = (if \<not> AccessListIsAddressExce al addr then fst (AccessListAddAddress addr al) else al)"

definition GetTrueAccessList :: "u8 \<Rightarrow> 's frame \<Rightarrow> AccessList \<Rightarrow> AccessList option" where
  "GetTrueAccessList op fr al = do {
     let st = stack fr; n = length st in do {
     al \<leftarrow> (if (op = 0x54 \<or> op = 0x55) \<and> n \<ge> 1
            then map_option fst (AccessListAddSlot (self (contract fr)) (st ! 0) al) else Some al);
     let al = (if (op = 0x3c \<or> op = 0x3f \<or> op = 0x3b \<or> op = 0x31 \<or> op = 0xff) \<and> n \<ge> 1
               then note_address (Bytes20 (st ! 0)) al else al);
         al = (if is_call op \<and> n \<ge> 5 then note_address (Bytes20 (st ! 1)) al else al)
     in Some al } }"

subsection \<open>One iteration of the loop\<close>

datatype 's outcome =
    Continue bool "'s frame"
  | Return bytes "evm_error option" bool "'s frame"

definition memory_size :: "'s operation \<Rightarrow> Stack \<Rightarrow> (evm_error + u64) option" where
  "memory_size oper st =
     (case memorySize oper of
        None \<Rightarrow> Some (Inr 0)
      | Some f \<Rightarrow> do {
          (memSize, overflow) \<leftarrow> f st;
          if overflow then Some (Inl ErrGasUintOverflow)
          else let (sz, overflow) = SafeMul (toWordSize memSize) 32 in
               if overflow then Some (Inl ErrGasUintOverflow) else Some (Inr sz) })"

definition charge_dynamic :: "'s operation \<Rightarrow> 's Context \<Rightarrow> 's frame \<Rightarrow> (evm_error option \<times> 's frame) option" where
  "charge_dynamic oper ctx fr =
     (case dynamicGas oper of
        None \<Rightarrow> Some (None, fr)
      | Some gasf \<Rightarrow> do {
          sz \<leftarrow> memory_size oper (stack fr);
          case sz of
            Inl e \<Rightarrow> Some (Some e, fr)
          | Inr sz \<Rightarrow> do {
              (r, e, m) \<leftarrow> gasf ctx (contract fr) (stack fr) sz (evm fr) (mem fr);
              let fr = fr\<lparr>evm := e, mem := m\<rparr> in
              case r of
                Inl _ \<Rightarrow> Some (Some ErrOutOfGas, fr)
              | Inr cost \<Rightarrow>
                  (case UseGas cost (contract fr) of
                     (False, _) \<Rightarrow> Some (Some ErrOutOfGas, fr)
                   | (True, c) \<Rightarrow> Some (None, fr\<lparr>contract := c, mem := (if sz > 0 then Resize sz m else m)\<rparr>)) } })"

text \<open>
  A parallel run compares what the instruction accesses with the declared list; a serial run adds
  it to the list it reports.
\<close>

definition track_access :: "u8 \<Rightarrow> 's Context \<Rightarrow> bool \<Rightarrow> bool \<Rightarrow> 's frame \<Rightarrow> (bool \<times> 's frame) option" where
  "track_access op ctx isParallel canParallel fr = do {
     part \<leftarrow> GetTrueAccessList op fr NewAccessList;
     if isParallel
     then do { c \<leftarrow> ConflictDetection part (GetAccessList (sdb ctx) (state (evm fr)));
               Some (if \<not> fst c then False else canParallel, fr) }
     else do { (al, _) \<leftarrow> CombineTrueAccessList (TrueAccessList (evm fr)) part;
               Some (canParallel, fr\<lparr>evm := (evm fr)\<lparr>TrueAccessList := al\<rparr>\<rparr>) } }"

text \<open>
  The dispatch. It returns the result of what ran last; with nothing run it is \<open>([], None)\<close>.
\<close>

definition dispatch ::
    "'s operation \<Rightarrow> u8 \<Rightarrow> 's Context \<Rightarrow> 's host \<Rightarrow> bool \<Rightarrow> bool \<Rightarrow> 's frame \<Rightarrow> ((bytes \<times> evm_error option \<times> bool) \<times> 's frame) option" where
  "dispatch oper op ctx h isParallel canParallel fr = do {
     ((res, err, canParallel), fr) \<leftarrow>
       (if is_create op
        then if \<not> isParallel
             then do { f \<leftarrow> executeAL oper; ((res, err, _), fr) \<leftarrow> f h isParallel fr; Some ((res, err, False), fr) }
             else Some (([], None, False), fr)
        else Some (([], None, canParallel), fr));
     if isParallel \<or> canParallel
     then if is_call op
          then do { f \<leftarrow> executeAL oper; f h isParallel fr }
          else do { f \<leftarrow> execute oper; ((res, err), fr) \<leftarrow> f ctx fr; Some ((res, err, canParallel), fr) }
     else Some ((res, err, canParallel), fr) }"

definition clear_stop :: "evm_error option \<Rightarrow> evm_error option" where
  "clear_stop err = (if err = Some errStopToken then None else err)"

definition run_step :: "(u8 \<Rightarrow> 's operation) \<Rightarrow> 's Context \<Rightarrow> 's host \<Rightarrow> bool \<Rightarrow> bool \<Rightarrow> 's frame \<Rightarrow> 's outcome option" where
  "run_step table ctx h isParallel canParallel fr =
     (let op = GetOp (pc fr) (contract fr);
          oper = table op;
          sLen = length (stack fr)
      in if sLen < min_stack oper
         then Some (Return [] (Some (ErrStackUnderflow sLen (min_stack oper))) True fr)
         else if sLen > max_stack oper
         then Some (Return [] (Some (ErrStackOverflow sLen (max_stack oper))) True fr)
         else (case UseGas (constantGas oper) (contract fr) of
             (False, _) \<Rightarrow> Some (Return [] (Some ErrOutOfGas) True fr)
           | (True, c) \<Rightarrow> do {
               (e, fr) \<leftarrow> charge_dynamic oper ctx (fr\<lparr>contract := c\<rparr>);
               case e of
                 Some err \<Rightarrow> Some (Return [] (Some err) True fr)
               | None \<Rightarrow> do {
                   (canParallel, fr) \<leftarrow> track_access op ctx isParallel canParallel fr;
                   ((res, err, canParallel), fr) \<leftarrow> dispatch oper op ctx h isParallel canParallel fr;
                   if err \<noteq> None then Some (Return res (clear_stop err) canParallel fr)
                   else if isParallel \<and> \<not> canParallel then Some (Return res None canParallel fr)
                   else Some (Continue canParallel (fr\<lparr>pc := pc fr + 1\<rparr>)) } }))"

subsection \<open>The loop\<close>

type_synonym 's run_result = "(bytes \<times> evm_error option \<times> bool) \<times> 's frame"

partial_function (option) run_loop ::
    "(u8 \<Rightarrow> 's operation) \<Rightarrow> 's Context \<Rightarrow> 's host \<Rightarrow> bool \<Rightarrow> bool \<Rightarrow> 's frame \<Rightarrow> 's run_result option option" where
  "run_loop table ctx h isParallel canParallel fr =
     (case run_step table ctx h isParallel canParallel fr of
        None \<Rightarrow> Some None
      | Some (Return res err cp fr') \<Rightarrow> Some (Some ((res, err, cp), fr'))
      | Some (Continue cp fr') \<Rightarrow> run_loop table ctx h isParallel cp fr')"

definition start_frame :: "bytes \<Rightarrow> Contract \<Rightarrow> 's EVM \<Rightarrow> 's frame" where
  "start_frame inp c e = \<lparr>pc = 0, stack = [], mem = NewMemory, contract = c\<lparr>Input := inp\<rparr>, evm = e\<rparr>"

definition Run ::
    "(u8 \<Rightarrow> 's operation) \<Rightarrow> 's Context \<Rightarrow> 's host \<Rightarrow> Contract \<Rightarrow> bytes \<Rightarrow> bool \<Rightarrow> bool \<Rightarrow> 's EVM
       \<Rightarrow> ((bytes \<times> evm_error option \<times> bool) \<times> Contract \<times> 's EVM) option" where
  "Run table ctx h c inp ro isParallel e =
     (if length (Code c) = 0 then Some (([], None, True), c, e)
      else do {
        let e1 = e\<lparr>depth := depth e + 1, readOnly := readOnly e \<or> ro\<rparr> in do {
        r \<leftarrow> run_loop table ctx h isParallel True (start_frame inp c e1);
        (res, fr) \<leftarrow> r;
        Some (res, contract fr,
          (evm fr)\<lparr>depth := depth (evm fr) - 1, readOnly := (if ro \<and> \<not> readOnly e then False else readOnly (evm fr))\<rparr>) } })"

end
