(* ===== verification/EVMEffect.thy ===== *)
theory EVMEffect
  imports EVMFacts
begin

text \<open>
  The effect of single instructions. An instruction that pops \<open>i\<close> words and pushes \<open>j\<close> changes the
  length of the stack by exactly that, keeps the code of its contract, and keeps its gas unless it
  calls or creates; each entry of the frontier table states the right \<open>i\<close> and \<open>j\<close>.
\<close>

definition op_effect :: "nat \<Rightarrow> nat \<Rightarrow> 's executionFunc \<Rightarrow> bool" where
  "op_effect i j f \<longleftrightarrow> (\<forall>ctx fr res err fr'. f ctx fr = Some ((res, err), fr') \<longrightarrow>
     Gas (contract fr') = Gas (contract fr) \<and> Code (contract fr') = Code (contract fr) \<and>
     depth (evm fr') = depth (evm fr) \<and>
     (err = None \<longrightarrow> length (stack fr') + i = length (stack fr) + j))"

text \<open>A host keeps the depth when each of its functions returns a machine at the depth it was given.\<close>

definition keeps_depth :: "'s host \<Rightarrow> bool" where
  "keeps_depth h \<longleftrightarrow>
     (\<forall>c a i g v p e r. host_Call h c a i g v p e = Some r \<longrightarrow> depth (snd r) = depth e) \<and>
     (\<forall>c a i g v p e r. host_CallCode h c a i g v p e = Some r \<longrightarrow> depth (snd r) = depth e) \<and>
     (\<forall>c i g v p e r. host_Create h c i g v p e = Some r \<longrightarrow> depth (snd r) = depth e)"

definition al_effect :: "nat \<Rightarrow> nat \<Rightarrow> 's executionFuncAL \<Rightarrow> bool" where
  "al_effect i j f \<longleftrightarrow> (\<forall>h isPar fr res err cp fr'. f h isPar fr = Some ((res, err, cp), fr') \<longrightarrow>
     pc fr' = pc fr \<and> Code (contract fr') = Code (contract fr) \<and>
     (keeps_depth h \<longrightarrow> depth (evm fr') = depth (evm fr)) \<and>
     (err = None \<longrightarrow> length (stack fr') + i = length (stack fr) + j))"

definition gas_effect :: "'s gasFunc \<Rightarrow> bool" where
  "gas_effect d \<longleftrightarrow> (\<forall>ctx c st sz ev m r ev' m'. d ctx c st sz ev m = Some (r, ev', m') \<longrightarrow> depth ev' = depth ev)"

definition entry_ok :: "'s operation \<Rightarrow> bool" where
  "entry_ok e \<longleftrightarrow> (\<exists>i j. min_stack e = i \<and> max_stack e + j = StackLimit + i \<and>
     (\<forall>f. execute e = Some f \<longrightarrow> op_effect i j f) \<and> (\<forall>f. executeAL e = Some f \<longrightarrow> al_effect i j f)) \<and>
     (\<forall>d. dynamicGas e = Some d \<longrightarrow> gas_effect d)"

subsection \<open>Stack primitives\<close>

lemma depth_upd_state [simp]: "depth (upd_state f e) = depth e"
  by (simp add: upd_state_def)

named_theorems frame_simps \<open>reading the results of stack and memory primitives\<close>

lemma pop_Some [frame_simps]: "pop st = Some (x, st') \<longleftrightarrow> st = x # st'"
  by (auto simp: pop_def split: list.splits)

lemma peek_Some [frame_simps]: "peek st = Some x \<longleftrightarrow> (\<exists>st'. st = x # st')"
  by (cases st) (auto simp: peek_def Back_def)

lemma length_poke [simp]: "length (poke v st) = length st"
  by (simp add: poke_def)

lemma length_push [simp]: "length (push v st) = Suc (length st)"
  by (simp add: push_def)

lemma length_dup: "dup n st = Some st' \<Longrightarrow> length st' = Suc (length st)"
  by (auto simp: dup_def split: if_splits)

lemma length_swap: "swap n st = Some st' \<Longrightarrow> length st' = length st"
  by (auto simp: swap_def split: if_splits)

lemma length_pops: "pops n st = Some (xs, st') \<Longrightarrow> length st = length st' + n"
  by (induction n arbitrary: st xs) (auto simp: Option.bind_eq_Some_conv frame_simps)

lemmas step_defs = proceed_def raise_def push_value_def unary_def binary_def ternary_def
lemmas step_simps = step_defs frame_simps Option.bind_eq_Some_conv Let_def

lemma unary_effect: "(\<And>ctx fr. f ctx fr = unary (g ctx fr) ctx fr) \<Longrightarrow> op_effect 1 1 f"
  by (auto simp: op_effect_def step_simps)

lemma binary_effect: "(\<And>ctx fr. f ctx fr = binary (g ctx fr) ctx fr) \<Longrightarrow> op_effect 2 1 f"
  by (auto simp: op_effect_def step_simps)

lemma ternary_effect: "(\<And>ctx fr. f ctx fr = ternary (g ctx fr) ctx fr) \<Longrightarrow> op_effect 3 1 f"
  by (auto simp: op_effect_def step_simps)

lemma push_effect: "(\<And>ctx fr. f ctx fr = push_value (g ctx fr) fr) \<Longrightarrow> op_effect 0 1 f"
  by (auto simp: op_effect_def step_simps)

subsection \<open>Instructions\<close>

lemma arith_effects:
  "op_effect 2 1 opAdd" "op_effect 2 1 opMul" "op_effect 2 1 opSub" "op_effect 2 1 opDiv"
  "op_effect 2 1 opSdiv" "op_effect 2 1 opMod" "op_effect 2 1 opSmod" "op_effect 2 1 opExp"
  "op_effect 2 1 opSignExtend" "op_effect 2 1 opLt" "op_effect 2 1 opGt" "op_effect 2 1 opSlt"
  "op_effect 2 1 opSgt" "op_effect 2 1 opEq" "op_effect 2 1 opAnd" "op_effect 2 1 opXor"
  "op_effect 2 1 opOr" "op_effect 2 1 opByte"
  by (rule binary_effect,
      simp only: opAdd_def opMul_def opSub_def opDiv_def opSdiv_def opMod_def opSmod_def opExp_def
        opSignExtend_def opLt_def opGt_def opSlt_def opSgt_def opEq_def opAnd_def opXor_def opOr_def
        opByte_def)+

lemma unary_effects:
  "op_effect 1 1 opIszero" "op_effect 1 1 opNot" "op_effect 1 1 opBalance" "op_effect 1 1 opCallDataLoad"
  "op_effect 1 1 opExtCodeSize" "op_effect 1 1 opBlockhash" "op_effect 1 1 opSload"
  by (rule unary_effect,
      simp only: opIszero_def opNot_def opBalance_def opCallDataLoad_def opExtCodeSize_def
        opBlockhash_def opSload_def)+

lemma ternary_effects: "op_effect 3 1 opAddmod" "op_effect 3 1 opMulmod"
  by (rule ternary_effect, simp only: opAddmod_def opMulmod_def)+

lemma push_effects:
  "op_effect 0 1 opAddress" "op_effect 0 1 opOrigin" "op_effect 0 1 opCaller" "op_effect 0 1 opCallDataSize"
  "op_effect 0 1 opCodeSize" "op_effect 0 1 opGasprice" "op_effect 0 1 opCoinbase" "op_effect 0 1 opTimestamp"
  "op_effect 0 1 opNumber" "op_effect 0 1 opDifficulty" "op_effect 0 1 opGasLimit" "op_effect 0 1 opPc"
  "op_effect 0 1 opMsize" "op_effect 0 1 opGas"
  by (rule push_effect,
      simp only: opAddress_def opOrigin_def opCaller_def opCallDataSize_def opCodeSize_def opGasprice_def
        opCoinbase_def opTimestamp_def opNumber_def opDifficulty_def opGasLimit_def opPc_def opMsize_def
        opGas_def)+

lemma isCode_keeps: "isCode n jd c = Some (b, jd', c') \<Longrightarrow> Gas c' = Gas c \<and> Code c' = Code c"
  by (auto simp: isCode_def Option.bind_eq_Some_conv split: option.splits if_splits)

lemma validJumpdest_keeps: "validJumpdest d jd c = Some (b, jd', c') \<Longrightarrow> Gas c' = Gas c \<and> Code c' = Code c"
  by (auto simp: validJumpdest_def dest: isCode_keeps split: prod.splits if_splits)

lemma jump_to_keeps:
  "jump_to pos fr = Some ((res, err), fr') \<Longrightarrow>
     Gas (contract fr') = Gas (contract fr) \<and> Code (contract fr') = Code (contract fr) \<and> stack fr' = stack fr \<and>
     depth (evm fr') = depth (evm fr)"
  by (auto simp: jump_to_def step_simps dest: validJumpdest_keeps split: if_splits)

lemma flow_effects:
  "op_effect 0 0 opStop" "op_effect 1 0 opPop" "op_effect 1 1 opMload" "op_effect 2 0 opMstore"
  "op_effect 2 0 opMstore8" "op_effect 2 0 opSstore" "op_effect 1 0 opJump" "op_effect 2 0 opJumpi"
  "op_effect 0 0 opJumpdest" "op_effect 2 0 opReturn" "op_effect 1 0 opSelfdestruct"
  "op_effect 0 0 opUndefined"
proof -
  show "op_effect 0 0 opStop" by (auto simp: op_effect_def opStop_def step_simps)
  show "op_effect 1 0 opPop" by (auto simp: op_effect_def opPop_def step_simps)
  show "op_effect 1 1 opMload" by (auto simp: op_effect_def opMload_def step_simps)
  show "op_effect 2 0 opMstore" by (auto simp: op_effect_def opMstore_def step_simps)
  show "op_effect 2 0 opMstore8" by (auto simp: op_effect_def opMstore8_def step_simps split: if_splits)
  show "op_effect 2 0 opSstore" by (auto simp: op_effect_def opSstore_def step_simps split: if_splits)
  show "op_effect 1 0 opJump"
    by (auto simp: op_effect_def opJump_def step_simps dest: jump_to_keeps split: if_splits)
  show "op_effect 2 0 opJumpi"
    by (auto simp: op_effect_def opJumpi_def step_simps dest: jump_to_keeps split: if_splits)
  show "op_effect 0 0 opJumpdest" by (auto simp: op_effect_def opJumpdest_def step_simps)
  show "op_effect 2 0 opReturn" by (auto simp: op_effect_def opReturn_def step_simps)
  show "op_effect 1 0 opSelfdestruct" by (auto simp: op_effect_def opSelfdestruct_def step_simps split: if_splits)
  show "op_effect 0 0 opUndefined" by (auto simp: op_effect_def opUndefined_def step_simps split: if_splits)
qed

lemma copy_data_keeps:
  "copy_data src a b c st fr = Some ((res, err), fr') \<Longrightarrow> contract fr' = contract fr \<and> stack fr' = st \<and> evm fr' = evm fr"
  unfolding copy_data_def Uint64WithOverflow_def Let_def prod.case
  by (auto simp: Option.bind_eq_Some_conv proceed_def)

lemma data_effects:
  "op_effect 2 1 opKeccak256" "op_effect 0 1 opCallValue" "op_effect 3 0 opCallDataCopy"
  "op_effect 3 0 opCodeCopy" "op_effect 4 0 opExtCodeCopy" "op_effect 0 1 opPush1"
proof -
  show "op_effect 2 1 opKeccak256" by (auto simp: op_effect_def opKeccak256_def step_simps)
  show "op_effect 0 1 opCallValue" by (auto simp: op_effect_def opCallValue_def step_simps)
  show "op_effect 3 0 opCallDataCopy"
    by (auto simp: op_effect_def opCallDataCopy_def step_simps dest!: copy_data_keeps)
  show "op_effect 3 0 opCodeCopy"
    by (auto simp: op_effect_def opCodeCopy_def step_simps dest!: copy_data_keeps)
  show "op_effect 4 0 opExtCodeCopy"
    by (auto simp: op_effect_def opExtCodeCopy_def step_simps dest!: copy_data_keeps)
  show "op_effect 0 1 opPush1" by (auto simp: op_effect_def opPush1_def step_simps split: if_splits)
qed

lemma makePush_effect: "op_effect 0 1 (makePush n k)"
  by (auto simp: op_effect_def makePush_def step_simps)

lemma makeDup_effect: "op_effect n (n + 1) (makeDup n)"
  by (auto simp: op_effect_def makeDup_def step_simps dest: length_dup)

lemma makeSwap_effect: "op_effect (n + 1) (n + 1) (makeSwap n)"
  by (auto simp: op_effect_def makeSwap_def step_simps dest: length_swap)

lemma makeLog_effect: "op_effect (n + 2) 0 (makeLog n)"
  by (auto simp: op_effect_def makeLog_def step_simps split: if_splits dest!: length_pops)

subsection \<open>Calls and creations\<close>

lemma creation_gas_keeps: "creation_gas c = (g, c') \<Longrightarrow> Code c' = Code c \<and> unat (Gas c') + unat g = unat (Gas c)"
proof -
  assume a: "creation_gas c = (g, c')"
  have div_le: "Gas c div 64 \<le> Gas c" by (simp add: word_le_nat_alt unat_div)
  then have le: "Gas c - Gas c div 64 \<le> Gas c" by (simp add: word_le_nat_alt unat_sub)
  then have "g = Gas c - Gas c div 64" "c' = c\<lparr>Gas := Gas c - g\<rparr>"
    using a by (auto simp: creation_gas_def UseGas_def Let_def not_less[symmetric])
  then show ?thesis using unat_sub[OF div_le] div_le by (simp add: word_le_nat_alt)
qed

lemma after_create_keeps:
  "after_create st c fr r = ((res', err, cp'), fr') \<Longrightarrow>
     err = None \<and> pc fr' = pc fr \<and> depth (evm fr') = depth (snd r) \<and> length (stack fr') = Suc (length st) \<and> contract fr' = c\<lparr>Gas := Gas c + fst (snd (snd (fst r)))\<rparr>"
  by (auto simp: after_create_def Let_def split: if_splits prod.splits)

lemma after_call_keeps:
  "after_call ro rs st fr r = Some ((res', err, cp'), fr') \<Longrightarrow>
     err = None \<and> pc fr' = pc fr \<and> depth (evm fr') = depth (snd r) \<and> length (stack fr') = Suc (length st) \<and>
     contract fr' = (contract fr)\<lparr>Gas := Gas (contract fr) + fst (snd (fst r))\<rparr>"
  by (auto simp: after_call_def Option.bind_eq_Some_conv Let_def split: prod.splits)

lemma opCreate_Some:
  assumes "opCreate h isPar fr = Some ((res, err, cp), fr')"
  obtains "err = Some ErrWriteProtection" "fr' = fr"
  | v off sz st c gas inp r where "stack fr = v # off # sz # st" "creation_gas (contract fr) = (gas, c)"
      "host_Create h (as_caller c) inp gas (uint v) isPar (evm fr) = Some r"
      "after_create st c fr r = ((res, err, cp), fr')"
proof -
  obtain gas c where "creation_gas (contract fr) = (gas, c)" by force
  then show ?thesis using assms that
    by (auto simp: opCreate_def frame_simps Option.bind_eq_Some_conv split: if_splits)
qed

lemma opCall_Some:
  assumes "opCall h isPar fr = Some ((res, err, cp), fr')"
  obtains st where "err = Some ErrWriteProtection" "fr' = fr\<lparr>stack := st\<rparr>"
  | g a v io isz ro rs st args r where "stack fr = g # a # v # io # isz # ro # rs # st"
      "host_Call h (as_caller (contract fr)) (Bytes20 a) args
         (if v \<noteq> 0 then callGasTemp (evm fr) + 2300 else callGasTemp (evm fr)) (uint v) isPar (evm fr) = Some r"
      "after_call ro rs st fr r = Some ((res, err, cp), fr')"
  using assms by (auto simp: opCall_def frame_simps Option.bind_eq_Some_conv Let_def split: if_splits)

lemma opCallCode_Some:
  assumes "opCallCode h isPar fr = Some ((res, err, cp), fr')"
  obtains g a v io isz ro rs st args r where "stack fr = g # a # v # io # isz # ro # rs # st"
      "host_CallCode h (as_caller (contract fr)) (Bytes20 a) args
         (if v \<noteq> 0 then callGasTemp (evm fr) + 2300 else callGasTemp (evm fr)) (uint v) isPar (evm fr) = Some r"
      "after_call ro rs st fr r = Some ((res, err, cp), fr')"
  using assms by (auto simp: opCallCode_def frame_simps Option.bind_eq_Some_conv Let_def)

lemma opCreate_effect: "al_effect 3 1 opCreate"
  unfolding al_effect_def keeps_depth_def
  by (fastforce elim!: opCreate_Some dest!: after_create_keeps creation_gas_keeps)

lemma opCall_effect: "al_effect 7 1 opCall"
  unfolding al_effect_def keeps_depth_def
  by (fastforce elim!: opCall_Some dest!: after_call_keeps)

lemma opCallCode_effect: "al_effect 7 1 opCallCode"
  unfolding al_effect_def keeps_depth_def
  by (fastforce elim!: opCallCode_Some dest!: after_call_keeps)

subsection \<open>Gas functions keep the depth\<close>

lemma after_memory_depth: "after_memory sz ev m k = (r, ev', m') \<Longrightarrow> ev' = ev"
  by (simp add: after_memory_def split: prod.splits)

lemma call_price_depth: "call_price base g c sz ev m = (r, ev', m') \<Longrightarrow> depth ev' = depth ev"
  by (auto simp: call_price_def reserve_call_gas_def split: prod.splits sum.splits)

lemma sstore_net_depth: "sstore_net a b c d e f ctx co st sz ev m = Some (r, ev', m') \<Longrightarrow> depth ev' = depth ev"
  by (auto simp: sstore_net_def Option.bind_eq_Some_conv Let_def split: if_splits)

lemma gas_effects:
  "gas_effect gasExpFrontier" "gas_effect gasKeccak256" "gas_effect gasCallDataCopy" "gas_effect gasCodeCopy"
  "gas_effect gasExtCodeCopy" "gas_effect pureMemoryGascost" "gas_effect gasSStore" "gas_effect (makeGasLog n)"
  "gas_effect gasCall" "gas_effect gasCallCode" "gas_effect gasSelfdestruct"
proof -
  note ge = gas_effect_def Option.bind_eq_Some_conv Let_def
  show "gas_effect gasExpFrontier" by (auto simp: ge gasExpFrontier_def exp_gas_def)
  show "gas_effect gasKeccak256" by (auto simp: ge gasKeccak256_def word_gas_def dest: after_memory_depth)
  show "gas_effect gasCallDataCopy" by (auto simp: ge gasCallDataCopy_def memoryCopierGas_def dest: after_memory_depth)
  show "gas_effect gasCodeCopy" by (auto simp: ge gasCodeCopy_def memoryCopierGas_def dest: after_memory_depth)
  show "gas_effect gasExtCodeCopy" by (auto simp: ge gasExtCodeCopy_def memoryCopierGas_def dest: after_memory_depth)
  show "gas_effect pureMemoryGascost" by (auto simp: ge pureMemoryGascost_def dest: after_memory_depth)
  show "gas_effect gasSStore" by (auto simp: ge gasSStore_def dest: sstore_net_depth)
  show "gas_effect (makeGasLog n)"
    by (auto simp: ge makeGasLog_def dest: after_memory_depth split: sum.split_asm)
  show "gas_effect gasCall" by (auto simp: ge gasCall_def dest!: call_price_depth)
  show "gas_effect gasCallCode" by (auto simp: ge gasCallCode_def dest!: call_price_depth)
  show "gas_effect gasSelfdestruct" by (auto simp: ge gasSelfdestruct_def)
qed

subsection \<open>The frontier table\<close>

lemma plain_ok: "op_effect i j f \<Longrightarrow> j \<le> StackLimit + i \<Longrightarrow> entry_ok (plain f g i j)"
  unfolding entry_ok_def plain_def minStack_def maxStack_def by (intro conjI exI[of _ i] exI[of _ j]) simp_all

lemma metered_ok: "op_effect i j f \<Longrightarrow> j \<le> StackLimit + i \<Longrightarrow> gas_effect d \<Longrightarrow> entry_ok (metered f g d i j)"
  unfolding entry_ok_def metered_def plain_def minStack_def maxStack_def by (intro conjI exI[of _ i] exI[of _ j]) simp_all

lemma sized_ok: "op_effect i j f \<Longrightarrow> j \<le> StackLimit + i \<Longrightarrow> gas_effect d \<Longrightarrow> entry_ok (sized f g d m i j)"
  unfolding entry_ok_def sized_def plain_def minStack_def maxStack_def by (intro conjI exI[of _ i] exI[of _ j]) simp_all

lemma calling_ok: "al_effect i j f \<Longrightarrow> j \<le> StackLimit + i \<Longrightarrow> gas_effect d \<Longrightarrow> entry_ok (calling f g d m i j)"
  unfolding entry_ok_def calling_def minStack_def maxStack_def by (intro conjI exI[of _ i] exI[of _ j]) simp_all

lemma dup_ok: "entry_ok ((plain (makeDup n) g 0 0)\<lparr>min_stack := minDupStack n, max_stack := maxDupStack n\<rparr>)"
  unfolding entry_ok_def plain_def minDupStack_def maxDupStack_def minStack_def maxStack_def
  using makeDup_effect[of n] by (intro conjI exI[of _ n] exI[of _ "n + 1"]) (simp_all add: StackLimit_def)

lemma swap_ok:
  "entry_ok ((plain (makeSwap n) g 0 0)\<lparr>min_stack := minSwapStack (n + 1), max_stack := maxSwapStack (n + 1)\<rparr>)"
  unfolding entry_ok_def plain_def minSwapStack_def maxSwapStack_def minStack_def maxStack_def
  using makeSwap_effect[of n] by (intro conjI exI[of _ "n + 1"] exI[of _ "n + 1"]) (simp_all add: StackLimit_def)

lemmas effects = arith_effects unary_effects ternary_effects push_effects flow_effects data_effects
  makePush_effect opCreate_effect opCall_effect opCallCode_effect

lemma log_effects: "op_effect 2 0 (makeLog 0)" "op_effect 3 0 (makeLog 1)" "op_effect 4 0 (makeLog 2)"
  "op_effect 5 0 (makeLog 3)" "op_effect 6 0 (makeLog 4)"
  using makeLog_effect[of 0] makeLog_effect[of 1] makeLog_effect[of 2] makeLog_effect[of 3] makeLog_effect[of 4]
  by (simp_all add: numeral_eq_Suc)

lemma frontier_entries_ok: "list_all (\<lambda>(op, e). entry_ok e) frontier_entries"
proof -
  note ok = plain_ok metered_ok sized_ok calling_ok effects log_effects gas_effects StackLimit_def
  have "list_all (\<lambda>(op, e). entry_ok e) frontier_arith" by (simp add: frontier_arith_def ok del: One_nat_def)
  moreover have "list_all (\<lambda>(op, e). entry_ok e) frontier_env" by (simp add: frontier_env_def ok del: One_nat_def)
  moreover have "list_all (\<lambda>(op, e). entry_ok e) frontier_flow" by (simp add: frontier_flow_def ok del: One_nat_def)
  moreover have "list_all (\<lambda>(op, e). entry_ok e) frontier_log" by (simp add: frontier_log_def ok del: One_nat_def)
  moreover have "list_all (\<lambda>(op, e). entry_ok e) frontier_sys" by (simp add: frontier_sys_def ok del: One_nat_def)
  moreover have "list_all (\<lambda>(op, e). entry_ok e) frontier_push"
    by (auto simp: frontier_push_def list_all_iff ok simp del: One_nat_def)
  moreover have "list_all (\<lambda>(op, e). entry_ok e) frontier_dup"
    by (auto simp: frontier_dup_def list_all_iff dup_ok)
  moreover have "list_all (\<lambda>(op, e). entry_ok e) frontier_swap"
    using swap_ok by (auto simp: frontier_swap_def list_all_iff)
  ultimately show ?thesis by (simp add: frontier_entries_def)
qed

lemma undefined_ok: "entry_ok undefined_operation"
  unfolding entry_ok_def undefined_operation_def maxStack_def
  using flow_effects(12) by (intro conjI exI[of _ 0]) (simp_all add: StackLimit_def)

lemma frontier_ok: "entry_ok (newFrontierInstructionSet op)"
proof (cases "map_of frontier_entries op :: 'a operation option")
  case None
  then show ?thesis using undefined_ok by (simp add: newFrontierInstructionSet_def)
next
  case (Some e)
  then have "(op, e) \<in> set frontier_entries" by (rule map_of_SomeD)
  then show ?thesis using Some frontier_entries_ok by (auto simp: newFrontierInstructionSet_def list_all_iff)
qed

text \<open>
  The price of an instruction is positive, or the instruction ends the run: \<open>STOP\<close>, \<open>RETURN\<close>,
  \<open>SELFDESTRUCT\<close> and undefined codes are the free ones.
\<close>

definition pays :: "'s operation \<Rightarrow> bool" where
  "pays e \<longleftrightarrow> 0 < constantGas e
     \<or> (\<exists>d. dynamicGas e = Some d \<and>
          (\<forall>ctx c st sz ev m cost ev' m'. d ctx c st sz ev m = Some (Inr cost, ev', m') \<longrightarrow> 0 < cost))
     \<or> (\<exists>f. execute e = Some f \<and>
          (\<forall>ctx fr res err fr'. f ctx fr = Some ((res, err), fr') \<longrightarrow> err \<noteq> None))"

lemma gasExp_pos: "exp_gas p ctx c st sz ev m = Some (Inr cost, ev', m') \<Longrightarrow> 0 < cost"
  by (auto simp: exp_gas_def Option.bind_eq_Some_conv Let_def safe_add_iff word_gt_0 unat_eq_0[symmetric])

lemma gasSStore_pos: "gasSStore ctx c st sz ev m = Some (Inr cost, ev', m') \<Longrightarrow> 0 < cost"
  by (auto simp: gasSStore_def sstore_net_def Option.bind_eq_Some_conv Let_def split: if_splits)

lemma bindE_Inr: "bindE r f = Inr x \<longleftrightarrow> (\<exists>a. r = Inr a \<and> f a = Inr x)"
  by (cases r) auto

lemma after_memory_Inr: "after_memory sz ev m k = (Inr cost, ev', m') \<longleftrightarrow>
    (\<exists>g. memoryGasCost sz m = (Inr g, m') \<and> k g = Inr cost \<and> ev' = ev)"
  by (auto simp: after_memory_def bindE_Inr split: prod.splits)

lemma makeGasLog_pos: "makeGasLog n ctx c st sz ev m = Some (Inr cost, ev', m') \<Longrightarrow> 0 < cost"
proof -
  assume a: "makeGasLog n ctx c st sz ev m = Some (Inr cost, ev', m')"
  then obtain w where w: "Back 1 st = Some w" by (auto simp: makeGasLog_def Option.bind_eq_Some_conv)
  with a obtain g g1 g2 r where "safe_add g 375 = Inr g1" "safe_add g1 (n * 375) = Inr g2" "safe_add g2 r = Inr cost"
    by (cases "as_uint64 w") (auto simp: makeGasLog_def after_memory_Inr bindE_Inr)
  then show ?thesis by (auto simp: safe_add_iff word_gt_0 unat_eq_0[symmetric])
qed

lemma ending:
  "opStop ctx fr = Some ((res, err), fr') \<Longrightarrow> err \<noteq> None"
  "opReturn ctx fr = Some ((res, err), fr') \<Longrightarrow> err \<noteq> None"
  "opSelfdestruct ctx fr = Some ((res, err), fr') \<Longrightarrow> err \<noteq> None"
  "opUndefined ctx fr = Some ((res, err), fr') \<Longrightarrow> err \<noteq> None"
  by (auto simp: opStop_def opReturn_def opSelfdestruct_def opUndefined_def step_simps split: if_splits)

lemma pays_plain: "0 < g \<Longrightarrow> pays (plain f g i j)"
  by (simp add: pays_def plain_def)

lemma pays_shapes: "0 < g \<Longrightarrow> pays (metered f g d i j)" "0 < g \<Longrightarrow> pays (sized f g d m i j)" "0 < g \<Longrightarrow> pays (calling fa g d m i j)"
  by (simp_all add: pays_def plain_def metered_def sized_def calling_def)

lemma pays_ends:
  "execute e = Some f \<Longrightarrow> (\<And>ctx fr res err fr'. f ctx fr = Some ((res, err), fr') \<Longrightarrow> err \<noteq> None) \<Longrightarrow> pays e"
  unfolding pays_def by blast

lemma pays_dynamic:
  "dynamicGas e = Some d \<Longrightarrow>
     (\<And>ctx c st sz ev m cost ev' m'. d ctx c st sz ev m = Some (Inr cost, ev', m') \<Longrightarrow> 0 < cost) \<Longrightarrow> pays e"
  unfolding pays_def by blast

lemma pays_free:
  "pays (plain opStop g i j)" "pays (sized opReturn g d m i j)" "pays (metered opSelfdestruct g d i j)"
  "pays undefined_operation"
  "pays (metered f g gasExpFrontier i j)" "pays (metered f g gasSStore i j)" "pays (sized f g (makeGasLog n) m i j)"
proof -
  show "pays (plain opStop g i j)" by (rule pays_ends[of _ opStop]) (simp add: plain_def, erule ending)
  show "pays (sized opReturn g d m i j)"
    by (rule pays_ends[of _ opReturn]) (simp add: sized_def plain_def, erule ending)
  show "pays (metered opSelfdestruct g d i j)"
    by (rule pays_ends[of _ opSelfdestruct]) (simp add: metered_def plain_def, erule ending)
  show "pays undefined_operation"
    by (rule pays_ends[of _ opUndefined]) (simp add: undefined_operation_def, erule ending)
  show "pays (metered f g gasExpFrontier i j)"
    by (rule pays_dynamic[of _ gasExpFrontier])
      (simp add: metered_def, unfold gasExpFrontier_def, erule gasExp_pos)
  show "pays (metered f g gasSStore i j)"
    by (rule pays_dynamic[of _ gasSStore]) (simp add: metered_def, erule gasSStore_pos)
  show "pays (sized f g (makeGasLog n) m i j)"
    by (rule pays_dynamic[of _ "makeGasLog n"]) (simp add: sized_def, erule makeGasLog_pos)
qed

lemma frontier_entries_pay: "list_all (\<lambda>(op, e). pays e) frontier_entries"
proof -
  note pay = pays_plain pays_shapes pays_free
  have "list_all (\<lambda>(op, e). pays e) frontier_arith" by (simp add: frontier_arith_def pay)
  moreover have "list_all (\<lambda>(op, e). pays e) frontier_env" by (simp add: frontier_env_def pay)
  moreover have "list_all (\<lambda>(op, e). pays e) frontier_flow" by (simp add: frontier_flow_def pay)
  moreover have "list_all (\<lambda>(op, e). pays e) frontier_log" by (simp add: frontier_log_def pay)
  moreover have "list_all (\<lambda>(op, e). pays e) frontier_sys" by (simp add: frontier_sys_def pay)
  moreover have "list_all (\<lambda>(op, e). pays e) frontier_push"
    by (auto simp: frontier_push_def list_all_iff pay)
  moreover have "list_all (\<lambda>(op, e). pays e) frontier_dup"
    by (auto simp: frontier_dup_def list_all_iff pays_def plain_def)
  moreover have "list_all (\<lambda>(op, e). pays e) frontier_swap"
    by (auto simp: frontier_swap_def list_all_iff pays_def plain_def)
  ultimately show ?thesis by (simp add: frontier_entries_def)
qed

lemma frontier_pays: "pays (newFrontierInstructionSet op)"
proof (cases "map_of frontier_entries op :: 'a operation option")
  case None
  then show ?thesis using pays_free(4) by (simp add: newFrontierInstructionSet_def)
next
  case (Some e)
  then have "(op, e) \<in> set frontier_entries" by (rule map_of_SomeD)
  then show ?thesis using Some frontier_entries_pay by (auto simp: newFrontierInstructionSet_def list_all_iff)
qed

lemma map_of_skip:
  "list_all (\<lambda>(x, _). x < b) xs \<Longrightarrow> b \<le> k \<Longrightarrow> map_of (xs @ ys) k = map_of ys k" for b k :: u8
  by (induction xs) auto

lemma low_entries:
  "list_all (\<lambda>(x, _). x < 0xf0) (frontier_arith @ frontier_env @ frontier_flow @ frontier_push @ frontier_dup @
     frontier_swap @ frontier_log)"
  by (simp add: frontier_arith_def frontier_env_def frontier_flow_def frontier_push_def frontier_dup_def
      frontier_swap_def frontier_log_def upt_rec)

lemma frontier_high:
  assumes "0xf0 \<le> op"
  shows "(newFrontierInstructionSet op :: 's operation) =
     (case map_of frontier_sys op of Some entry \<Rightarrow> entry | None \<Rightarrow> undefined_operation)"
proof -
  have "map_of ((frontier_arith @ frontier_env @ frontier_flow @ frontier_push @ frontier_dup @
      frontier_swap @ frontier_log) @ frontier_sys) op = (map_of frontier_sys op :: 's operation option)"
    by (rule map_of_skip[OF low_entries assms])
  then show ?thesis unfolding newFrontierInstructionSet_def frontier_entries_def by simp
qed

lemma frontier_calls:
  "newFrontierInstructionSet CREATE = calling opCreate 32000 pureMemoryGascost memoryCreate 3 1"
  "newFrontierInstructionSet CALL = calling opCall 40 gasCall memoryCall 7 1"
  "newFrontierInstructionSet CALLCODE = calling opCallCode 40 gasCallCode memoryCall 7 1"
  "newFrontierInstructionSet CREATE2 = undefined_operation"
  "newFrontierInstructionSet DELEGATECALL = undefined_operation"
  "newFrontierInstructionSet STATICCALL = undefined_operation"
  by (simp_all add: frontier_high frontier_sys_def CREATE_def CALL_def CALLCODE_def CREATE2_def
      DELEGATECALL_def STATICCALL_def)

end
