(* ===== verification/EVMTerm.thy ===== *)
theory EVMTerm
  imports EVMEffect
begin

text \<open>
  Gas and termination of the interpreter. The locale \<open>gas_host\<close> is what the interpreter relies on
  in the functions that run other contracts: a call returns no more gas than it was given. Under it
  no iteration of the loop gains gas, an iteration that executes its instruction and goes on pays
  for it, and so the loop ends for every code.
\<close>

subsection \<open>Charging an instruction\<close>

lemma UseGas_Some: "UseGas g c = (True, c') \<Longrightarrow> c' = c\<lparr>Gas := Gas c - g\<rparr> \<and> unat (Gas c') + unat g = unat (Gas c)"
  by (auto simp: UseGas_def unat_sub word_le_nat_alt not_less split: if_splits)

lemma UseGas_fail: "UseGas g c = (False, c') \<Longrightarrow> c' = c"
  by (auto simp: UseGas_def split: if_splits)

definition charged :: "'s operation \<Rightarrow> 's Context \<Rightarrow> 's frame \<Rightarrow> 's frame \<Rightarrow> bool" where
  "charged oper ctx fr fr' \<longleftrightarrow> pc fr' = pc fr \<and> stack fr' = stack fr \<and> Code (contract fr') = Code (contract fr) \<and>
     (case dynamicGas oper of
        None \<Rightarrow> Gas (contract fr') = Gas (contract fr)
      | Some d \<Rightarrow> (\<exists>sz cost m. d ctx (contract fr) (stack fr) sz (evm fr) (mem fr) = Some (Inr cost, evm fr', m) \<and>
           unat (Gas (contract fr')) + unat cost = unat (Gas (contract fr))))"

lemma charge_dynamic_cases:
  assumes "charge_dynamic oper ctx fr = Some (err, fr')" "dynamicGas oper = Some d"
  obtains (fail) e where "err = Some e" "contract fr' = contract fr"
      "fr' = fr \<or> (\<exists>sz r m. d ctx (contract fr) (stack fr) sz (evm fr) (mem fr) = Some (r, evm fr', m))"
  | (pay) sz cost e m c where "d ctx (contract fr) (stack fr) sz (evm fr) (mem fr) = Some (Inr cost, e, m)"
      "UseGas cost (contract fr) = (True, c)" "err = None"
      "fr' = fr\<lparr>evm := e, mem := (if sz > 0 then Resize sz m else m), contract := c\<rparr>"
proof -
  obtain r where r: "memory_size oper (stack fr) = Some r"
    using assms by (auto simp: charge_dynamic_def Option.bind_eq_Some_conv)
  show ?thesis
  proof (cases r)
    case (Inl e)
    then show ?thesis using assms r by (intro fail[of e]) (auto simp: charge_dynamic_def)
  next
    case sz: (Inr sz)
    obtain q e m where q: "d ctx (contract fr) (stack fr) sz (evm fr) (mem fr) = Some (q, e, m)"
      using assms r sz by (auto simp: charge_dynamic_def Option.bind_eq_Some_conv)
    show ?thesis
    proof (cases q)
      case (Inl x)
      then have "err = Some ErrOutOfGas" "fr' = fr\<lparr>evm := e, mem := m\<rparr>"
        using assms r sz q by (auto simp: charge_dynamic_def)
      then show ?thesis using q by (intro fail[of ErrOutOfGas]) auto
    next
      case (Inr cost)
      obtain b c where "UseGas cost (contract fr) = (b, c)" by force
      note use = this
      show ?thesis
      proof (cases b)
        case True
        then show ?thesis using assms r sz q Inr use pay[of sz cost e m c] by (auto simp: charge_dynamic_def)
      next
        case False
        then have "err = Some ErrOutOfGas" "fr' = fr\<lparr>evm := e, mem := m\<rparr>"
          using assms r sz q Inr use by (auto simp: charge_dynamic_def)
        then show ?thesis using q by (intro fail[of ErrOutOfGas]) auto
      qed
    qed
  qed
qed

lemma charge_dynamic_ok:
  assumes "charge_dynamic oper ctx fr = Some (None, fr')"
  shows "charged oper ctx fr fr'"
proof (cases "dynamicGas oper")
  case None
  then show ?thesis using assms by (simp add: charge_dynamic_def charged_def)
next
  case (Some d)
  with assms show ?thesis
  proof (cases rule: charge_dynamic_cases)
    case (pay sz cost e m c)
    have "\<exists>sz cost m. d ctx (contract fr) (stack fr) sz (evm fr) (mem fr) = Some (Inr cost, e, m) \<and>
        unat (Gas c) + unat cost = unat (Gas (contract fr))"
      using pay(1) UseGas_Some[OF pay(2)] by blast
    then show ?thesis using Some pay(4) UseGas_Some[OF pay(2)] by (simp add: charged_def)
  qed simp
qed

lemma charge_dynamic_fail:
  assumes "charge_dynamic oper ctx fr = Some (Some e, fr')"
  shows "contract fr' = contract fr"
proof (cases "dynamicGas oper")
  case None
  then show ?thesis using assms by (simp add: charge_dynamic_def)
next
  case (Some d)
  with assms show ?thesis by (cases rule: charge_dynamic_cases) simp_all
qed

lemma charge_dynamic_depth:
  assumes "charge_dynamic oper ctx fr = Some (e, fr')" "entry_ok oper"
  shows "depth (evm fr') = depth (evm fr)"
proof (cases "dynamicGas oper")
  case None
  then show ?thesis using assms(1) by (simp add: charge_dynamic_def)
next
  case (Some d)
  then have d: "gas_effect d" using assms(2) by (auto simp: entry_ok_def)
  from assms(1) Some show ?thesis
  proof (cases rule: charge_dynamic_cases)
    case (fail e')
    then show ?thesis using d unfolding gas_effect_def by blast
  next
    case (pay sz cost ev m c)
    then have "depth ev = depth (evm fr)" using d unfolding gas_effect_def by blast
    then show ?thesis using pay(4) by simp
  qed
qed

lemma track_access_keeps:
  assumes "track_access op ctx isPar cp fr = Some (cp', fr')"
  shows "pc fr' = pc fr \<and> stack fr' = stack fr \<and> contract fr' = contract fr \<and>
     callGasTemp (evm fr') = callGasTemp (evm fr) \<and> depth (evm fr') = depth (evm fr) \<and> (\<not> isPar \<longrightarrow> cp' = cp)"
proof -
  obtain part where part: "GetTrueAccessList op fr NewAccessList = Some part"
    using assms by (cases "GetTrueAccessList op fr NewAccessList") (simp_all add: track_access_def)
  show ?thesis
  proof (cases isPar)
    case True
    then have "fr' = fr" using assms part
      by (cases "ConflictDetection part (GetAccessList (sdb ctx) (state (evm fr)))") (simp_all add: track_access_def)
    then show ?thesis using True by simp
  next
    case False
    then obtain al where "fr' = fr\<lparr>evm := (evm fr)\<lparr>TrueAccessList := al\<rparr>\<rparr>" "cp' = cp" using assms part
      by (cases "CombineTrueAccessList (TrueAccessList (evm fr)) part") (auto simp: track_access_def)
    then show ?thesis by simp
  qed
qed

subsection \<open>The price of a call\<close>

lemma call_price_Inr:
  assumes "call_price base g c sz ev m = (Inr cost, ev', m')"
  shows "unat base + unat (callGasTemp ev') \<le> unat cost"
proof -
  obtain r m1 where m1: "memoryGasCost sz m = (r, m1)" by force
  with assms obtain mg where mg: "r = Inr mg" by (cases r) (simp_all add: call_price_def)
  with assms m1 obtain gas where gas: "safe_add base mg = Inr gas"
    by (cases "safe_add base mg") (simp_all add: call_price_def)
  with assms m1 mg have "reserve_call_gas gas g c ev m1 = (Inr cost, ev', m')" by (simp add: call_price_def)
  then have "safe_add gas (callGasTemp ev') = Inr cost"
    by (cases "callGas True (Gas c) gas g") (auto simp: reserve_call_gas_def)
  then show ?thesis using gas by (simp add: safe_add_iff)
qed

definition stipend :: "u256 \<Rightarrow> nat" where
  "stipend v = (if v \<noteq> 0 then 2300 else 0)"

lemma gasCall_covers:
  assumes "gasCall ctx c st sz ev m = Some (Inr cost, ev', m')" "st = g # a # v # rest"
  shows "stipend v + unat (callGasTemp ev') \<le> unat cost"
proof -
  obtain base where "call_price base g c sz ev m = (Inr cost, ev', m')" "v \<noteq> 0 \<Longrightarrow> 9000 \<le> unat base"
    using assms by (auto simp: gasCall_def Back_def Let_def split: if_splits)
  then show ?thesis using call_price_Inr[of base] by (fastforce simp: stipend_def)
qed

lemma gasCallCode_covers:
  assumes "gasCallCode ctx c st sz ev m = Some (Inr cost, ev', m')" "st = g # a # v # rest"
  shows "stipend v + unat (callGasTemp ev') \<le> unat cost"
proof -
  have "call_price (if v \<noteq> 0 then 9000 else 0) g c sz ev m = (Inr cost, ev', m')"
    using assms by (auto simp: gasCallCode_def Back_def)
  from call_price_Inr[OF this] show ?thesis by (simp add: stipend_def split: if_splits)
qed

subsection \<open>One iteration\<close>

text \<open>An iteration fails before it executes its instruction, or it charges, tracks and dispatches it.\<close>

lemma run_step_cases:
  assumes "run_step table ctx h isPar cp fr = Some out"
  obtains (early) e fr' where "out = Return [] (Some e) True fr'" "unat (Gas (contract fr')) \<le> unat (Gas (contract fr))"
      "fr' = fr \<or> (\<exists>c. charge_dynamic (table (GetOp (pc fr) (contract fr))) ctx (fr\<lparr>contract := c\<rparr>) = Some (Some e, fr'))"
  | (exec) c fr1 cp2 fr2 res err cp3 fr3 where
      "min_stack (table (GetOp (pc fr) (contract fr))) \<le> length (stack fr)"
      "length (stack fr) \<le> max_stack (table (GetOp (pc fr) (contract fr)))"
      "UseGas (constantGas (table (GetOp (pc fr) (contract fr)))) (contract fr) = (True, c)"
      "charge_dynamic (table (GetOp (pc fr) (contract fr))) ctx (fr\<lparr>contract := c\<rparr>) = Some (None, fr1)"
      "track_access (GetOp (pc fr) (contract fr)) ctx isPar cp fr1 = Some (cp2, fr2)"
      "dispatch (table (GetOp (pc fr) (contract fr))) (GetOp (pc fr) (contract fr)) ctx h isPar cp2 fr2 = Some ((res, err, cp3), fr3)"
      "out = (if err \<noteq> None then Return res (clear_stop err) cp3 fr3
              else if isPar \<and> \<not> cp3 then Return res None cp3 fr3
              else Continue cp3 (fr3\<lparr>pc := pc fr3 + 1\<rparr>))"
proof -
  define op where "op = GetOp (pc fr) (contract fr)"
  define oper where "oper = table op"
  note defs = run_step_def Let_def op_def[symmetric] oper_def[symmetric]
  consider (under) "length (stack fr) < min_stack oper" | (over) "\<not> length (stack fr) < min_stack oper" "max_stack oper < length (stack fr)"
    | (fit) "min_stack oper \<le> length (stack fr)" "length (stack fr) \<le> max_stack oper" by linarith
  then show ?thesis
  proof cases
    case under
    then show ?thesis using assms early by (auto simp: defs)
  next
    case over
    then show ?thesis using assms early by (auto simp: defs)
  next
    case fit
    obtain ok c where use: "UseGas (constantGas oper) (contract fr) = (ok, c)" by force
    show ?thesis
    proof (cases ok)
      case False
      then show ?thesis using assms fit use early by (auto simp: defs)
    next
      case True
      have gas: "unat (Gas c) \<le> unat (Gas (contract fr))" using UseGas_Some use True by fastforce
      obtain e fr1 where ch: "charge_dynamic oper ctx (fr\<lparr>contract := c\<rparr>) = Some (e, fr1)"
        using assms fit use True by (cases "charge_dynamic oper ctx (fr\<lparr>contract := c\<rparr>)") (auto simp: defs)
      show ?thesis
      proof (cases e)
        case (Some err)
        then have "out = Return [] (Some err) True fr1" using assms fit use True ch by (simp add: defs)
        then show ?thesis
          using early[of err fr1] ch Some gas charge_dynamic_fail[of oper ctx _ err fr1] by (auto simp: op_def oper_def)
      next
        case None
        obtain cp2 fr2 where tr: "track_access op ctx isPar cp fr1 = Some (cp2, fr2)"
          using assms fit use True ch None by (cases "track_access op ctx isPar cp fr1") (auto simp: defs)
        obtain res err cp3 fr3 where di: "dispatch oper op ctx h isPar cp2 fr2 = Some ((res, err, cp3), fr3)"
          using assms fit use True ch None tr by (cases "dispatch oper op ctx h isPar cp2 fr2") (auto simp: defs)
        have "out = (if err \<noteq> None then Return res (clear_stop err) cp3 fr3
              else if isPar \<and> \<not> cp3 then Return res None cp3 fr3
              else Continue cp3 (fr3\<lparr>pc := pc fr3 + 1\<rparr>))"
          using assms fit use True ch None tr di by (auto simp: defs)
        then show ?thesis
          using exec[of c fr1 cp2 fr2 res err cp3 fr3] fit use True ch None tr di by (simp add: op_def oper_def)
      qed
    qed
  qed
qed

text \<open>What a dispatch through the frontier table can be.\<close>

lemma create_no_call: "\<not> is_call CREATE" "\<not> is_call CREATE2"
  by (simp_all add: is_call_def CREATE_def CREATE2_def CALL_def CALLCODE_def DELEGATECALL_def STATICCALL_def)

lemma dispatch_cases:
  assumes "dispatch (newFrontierInstructionSet op) op ctx h isPar cp fr = Some ((res, err, cp'), fr')"
  obtains (create) "op = CREATE" "\<not> isPar" "\<not> cp'" "\<exists>b. opCreate h isPar fr = Some ((res, err, b), fr')"
  | (call) "op = CALL" "isPar \<or> cp" "opCall h isPar fr = Some ((res, err, cp'), fr')"
  | (callcode) "op = CALLCODE" "isPar \<or> cp" "opCallCode h isPar fr = Some ((res, err, cp'), fr')"
  | (plain) f where "execute (newFrontierInstructionSet op) = Some f" "isPar \<or> cp" "isPar \<or> cp'"
      "f ctx fr = Some ((res, err), fr')"
  | (skip) "\<not> isPar" "\<not> cp" "\<not> cp'" "err = None" "fr' = fr"
proof (cases "is_create op")
  case True
  then consider "op = CREATE" | "op = CREATE2" by (auto simp: is_create_def)
  then show ?thesis
  proof cases
    case 1
    show ?thesis
    proof (cases isPar)
      case False
      then show ?thesis using assms 1 True create
        by (auto simp: dispatch_def frontier_calls calling_def Option.bind_eq_Some_conv)
    next
      case par: True
      then show ?thesis using assms 1 True
        by (auto simp: dispatch_def frontier_calls calling_def create_no_call)
    qed
  next
    case 2
    then show ?thesis using assms True plain[of opUndefined]
      by (auto simp: dispatch_def frontier_calls undefined_operation_def Option.bind_eq_Some_conv create_no_call
          split: if_splits)
  qed
next
  case no_create: False
  show ?thesis
  proof (cases "isPar \<or> cp")
    case False
    then show ?thesis using assms no_create skip by (auto simp: dispatch_def)
  next
    case run: True
    show ?thesis
    proof (cases "is_call op")
      case True
      then consider "op = CALL" | "op = CALLCODE" | "op = DELEGATECALL" | "op = STATICCALL"
        by (auto simp: is_call_def)
      then show ?thesis using assms no_create run True call callcode
        by cases (auto simp: dispatch_def frontier_calls calling_def undefined_operation_def)
    next
      case False
      then show ?thesis using assms no_create run plain
        by (auto simp: dispatch_def Option.bind_eq_Some_conv)
    qed
  qed
qed

subsection \<open>Reasoning about the loop\<close>

lemma loop_invariant:
  assumes "run_loop table ctx h isPar cp fr = Some (Some (res, fr'))" "I cp fr"
    and step: "\<And>cp fr cp' fr'. run_step table ctx h isPar cp fr = Some (Continue cp' fr') \<Longrightarrow> I cp fr \<Longrightarrow> I cp' fr'"
    and ret: "\<And>cp fr r e c fr'. run_step table ctx h isPar cp fr = Some (Return r e c fr') \<Longrightarrow> I cp fr \<Longrightarrow> Q (r, e, c) fr'"
  shows "Q res fr'"
proof -
  have "t = table \<and> c = ctx \<and> h' = h \<and> p = isPar \<and> I b f \<longrightarrow> (\<forall>q. r = Some q \<longrightarrow> Q (fst q) (snd q))"
    if "run_loop t c h' p b f = Some r" for t c h' p b f r
    using that
  proof (rule run_loop.raw_induct[rotated])
    fix loop t c h' p b f r
    assume IH: "\<And>t c h' p b f r. loop t c h' p b f = Some r \<Longrightarrow>
        t = table \<and> c = ctx \<and> h' = h \<and> p = isPar \<and> I b f \<longrightarrow> (\<forall>q. r = Some q \<longrightarrow> Q (fst q) (snd q))"
      and body: "(case run_step t c h' p b f of None \<Rightarrow> Some None
          | Some (Continue cp fr') \<Rightarrow> loop t c h' p cp fr'
          | Some (Return res err cp fr') \<Rightarrow> Some (Some ((res, err, cp), fr'))) = Some r"
    show "t = table \<and> c = ctx \<and> h' = h \<and> p = isPar \<and> I b f \<longrightarrow> (\<forall>q. r = Some q \<longrightarrow> Q (fst q) (snd q))"
    proof (cases "run_step t c h' p b f")
      case None
      then show ?thesis using body by simp
    next
      case (Some out)
      then show ?thesis using body IH step ret by (cases out) auto
    qed
  qed
  from this[OF assms(1)] assms(2) show ?thesis by simp
qed
subsection \<open>Gas never grows\<close>

lemma pays_charged:
  assumes "pays oper" "UseGas (constantGas oper) (contract fr) = (True, c)"
    "charged oper ctx (fr\<lparr>contract := c\<rparr>) fr1"
    "execute oper = Some f" "f ctx fr2 = Some ((res, None), fr3)"
  shows "unat (Gas (contract fr1)) < unat (Gas (contract fr))"
proof -
  have c: "unat (Gas c) + unat (constantGas oper) = unat (Gas (contract fr))" using UseGas_Some[OF assms(2)] by blast
  have g1: "unat (Gas (contract fr1)) \<le> unat (Gas c)"
    using assms(3) by (auto simp: charged_def split: option.splits)
  from assms(1) consider (const) "0 < constantGas oper"
    | (dyn) d where "dynamicGas oper = Some d"
        "\<forall>ctx c st sz ev m cost ev' m'. d ctx c st sz ev m = Some (Inr cost, ev', m') \<longrightarrow> 0 < cost"
    | (ends) "\<forall>ctx fr res err fr'. f ctx fr = Some ((res, err), fr') \<longrightarrow> err \<noteq> None"
    using assms(4) unfolding pays_def by (metis option.inject)
  then show ?thesis
  proof cases
    case const
    then have "0 < unat (constantGas oper)" by (simp add: word_less_nat_alt)
    then show ?thesis using c g1 by linarith
  next
    case (dyn d)
    obtain sz cost m where "d ctx c (stack fr) sz (evm fr) (mem fr) = Some (Inr cost, evm fr1, m)"
        and g: "unat (Gas (contract fr1)) + unat cost = unat (Gas c)"
      using assms(3) dyn(1) by (auto simp: charged_def)
    then have "0 < cost" using dyn(2) by blast
    then have "0 < unat cost" by (simp add: word_less_nat_alt)
    then show ?thesis using c g by linarith
  next
    case ends
    then show ?thesis using assms(5) by blast
  qed
qed

definition progress :: "'s operation \<Rightarrow> bool \<Rightarrow> bool \<Rightarrow> 's frame \<Rightarrow> evm_error option \<Rightarrow> bool \<Rightarrow> 's frame \<Rightarrow> bool" where
  "progress oper isPar cp fr err cp' fr' \<longleftrightarrow>
     unat (Gas (contract fr')) \<le> unat (Gas (contract fr)) \<and> Code (contract fr') = Code (contract fr) \<and>
     (err = None \<longrightarrow> unat (Gas (contract fr')) < unat (Gas (contract fr)) \<or>
        \<not> isPar \<and> \<not> cp \<and> constantGas oper = 0) \<and>
     (\<not> isPar \<and> \<not> cp \<longrightarrow> \<not> cp' \<and> pc fr' = pc fr) \<and>
     (\<not> isPar \<and> cp \<and> \<not> cp' \<longrightarrow> 0 < constantGas oper) \<and>
     (err = None \<longrightarrow> length (stack fr) \<le> StackLimit \<longrightarrow> length (stack fr') \<le> StackLimit)"

locale gas_host =
  fixes h :: "'s host"
  assumes Call_gas: "host_Call h c a i g v p e = Some r \<Longrightarrow> fst (snd (fst r)) \<le> g"
    and CallCode_gas: "host_CallCode h c a i g v p e = Some r \<Longrightarrow> fst (snd (fst r)) \<le> g"
    and Create_gas: "host_Create h c i g v p e = Some r2 \<Longrightarrow> fst (snd (snd (fst r2))) \<le> g"
begin

lemma credit:
  fixes g r temp :: u64
  assumes "r \<le> (if v \<noteq> 0 then temp + 2300 else temp)" "unat g + (stipend v + unat temp) \<le> n" "n < 18446744073709551616"
  shows "unat (g + r) \<le> n"
proof -
  have "unat (if v \<noteq> 0 then temp + 2300 else temp) = stipend v + unat temp"
    using assms(2,3) unat_add_small[of temp 2300] by (auto simp: stipend_def)
  then have "unat r \<le> stipend v + unat temp" using assms(1) by (simp add: word_le_nat_alt)
  then show ?thesis using assms(2,3) unat_add_small[of g r] by simp
qed

lemma opCreate_gas:
  assumes "opCreate h isPar fr = Some ((res, err, cp), fr')"
  shows "unat (Gas (contract fr')) \<le> unat (Gas (contract fr))"
  using assms
proof (cases rule: opCreate_Some)
  case (2 v off sz st c gas inp r)
  have g: "unat (Gas c) + unat gas = unat (Gas (contract fr))" using creation_gas_keeps[OF 2(2)] by simp
  have "fst (snd (snd (fst r))) \<le> gas" using Create_gas[OF 2(3)] .
  then have r: "unat (fst (snd (snd (fst r)))) \<le> unat gas" by (simp add: word_le_nat_alt)
  have "contract fr' = c\<lparr>Gas := Gas c + fst (snd (snd (fst r)))\<rparr>" using after_create_keeps[OF 2(4)] by simp
  moreover have "unat (Gas c + fst (snd (snd (fst r)))) = unat (Gas c) + unat (fst (snd (snd (fst r))))"
    using r g unat_lt64[of "Gas (contract fr)"] by (intro unat_add_small) linarith
  ultimately show ?thesis using g r by simp
qed simp

lemma opCall_gas:
  assumes "opCall h isPar fr = Some ((res, err, cp), fr')"
  obtains "contract fr' = contract fr" "err \<noteq> None"
  | g a v rest where "stack fr = g # a # v # rest"
    "\<And>n. unat (Gas (contract fr)) + (stipend v + unat (callGasTemp (evm fr))) \<le> n \<Longrightarrow>
       n < 18446744073709551616 \<Longrightarrow> unat (Gas (contract fr')) \<le> n"
  using assms(1)
proof (cases rule: opCall_Some)
  case (1 st)
  then show ?thesis using that(1) by simp
next
  case (2 g a v io isz ro rs st args r)
  have "contract fr' = (contract fr)\<lparr>Gas := Gas (contract fr) + fst (snd (fst r))\<rparr>"
    using after_call_keeps[OF 2(3)] by simp
  then show ?thesis using that(2)[OF 2(1)] credit[OF Call_gas[OF 2(2)]] by simp
qed

lemma opCallCode_gas:
  assumes "opCallCode h isPar fr = Some ((res, err, cp), fr')"
  obtains g a v rest where "stack fr = g # a # v # rest"
    "\<And>n. unat (Gas (contract fr)) + (stipend v + unat (callGasTemp (evm fr))) \<le> n \<Longrightarrow>
       n < 18446744073709551616 \<Longrightarrow> unat (Gas (contract fr')) \<le> n"
  using assms(1)
proof (cases rule: opCallCode_Some)
  case (1 g a v io isz ro rs st args r)
  have "contract fr' = (contract fr)\<lparr>Gas := Gas (contract fr) + fst (snd (fst r))\<rparr>"
    using after_call_keeps[OF 1(3)] by simp
  then show ?thesis using that[OF 1(1)] credit[OF CallCode_gas[OF 1(2)]] by simp
qed

lemma exec_progress:
  assumes op: "oper = newFrontierInstructionSet op"
    and fit: "min_stack oper \<le> length (stack fr)" "length (stack fr) \<le> max_stack oper"
    and use: "UseGas (constantGas oper) (contract fr) = (True, c)"
    and charge: "charge_dynamic oper ctx (fr\<lparr>contract := c\<rparr>) = Some (None, fr1)"
    and tr: "track_access op ctx isPar cp fr1 = Some (cp2, fr2)"
    and di: "dispatch oper op ctx h isPar cp2 fr2 = Some ((res, err, cp3), fr3)"
  shows "progress oper isPar cp fr err cp3 fr3"
proof -
  note ch = charge_dynamic_ok[OF charge]
  obtain i j where ij: "min_stack oper = i" "max_stack oper + j = StackLimit + i"
    "\<And>f. execute oper = Some f \<Longrightarrow> op_effect i j f" "\<And>f. executeAL oper = Some f \<Longrightarrow> al_effect i j f"
    using frontier_ok[of op] unfolding op entry_ok_def by blast
  note c = UseGas_Some[OF use]
  have f1: "pc fr1 = pc fr" "stack fr1 = stack fr" "Code (contract fr1) = Code (contract fr)"
    using ch c by (auto simp: charged_def)
  have g1: "unat (Gas (contract fr1)) \<le> unat (Gas c)"
    using ch by (auto simp: charged_def split: option.splits)
  have f2: "pc fr2 = pc fr" "stack fr2 = stack fr" "contract fr2 = contract fr1"
      "callGasTemp (evm fr2) = callGasTemp (evm fr1)" "\<not> isPar \<Longrightarrow> cp2 = cp"
    using track_access_keeps[OF tr] f1 by auto
  have room: "length (stack fr3) \<le> StackLimit" if "length (stack fr3) + i = length (stack fr2) + j"
    using that ij(1,2) fit f2(2) by simp
  have "dispatch (newFrontierInstructionSet op) op ctx h isPar cp2 fr2 = Some ((res, err, cp3), fr3)"
    using di op by simp
  then show ?thesis
  proof (cases rule: dispatch_cases)
    case create
    then obtain b where b: "opCreate h isPar fr2 = Some ((res, err, b), fr3)" by blast
    have "unat (Gas (contract fr3)) \<le> unat (Gas (contract fr2))" using opCreate_gas[OF b] .
    moreover have "al_effect i j (opCreate :: 's executionFuncAL)" using ij(4) op create(1) by (simp add: frontier_calls calling_def)
    moreover have "constantGas oper = 32000" using op create(1) by (simp add: frontier_calls calling_def)
    ultimately show ?thesis using b c g1 f1 f2 room create(2,3) op by (auto simp: progress_def al_effect_def)
  next
    case call
    have k: "constantGas oper = 40" "al_effect i j (opCall :: 's executionFuncAL)" "dynamicGas oper = Some gasCall"
      using ij(4) op call(1) by (simp_all add: frontier_calls calling_def)
    obtain sz cost m where m: "gasCall ctx c (stack fr) sz (evm fr) (mem fr) = Some (Inr cost, evm fr1, m)"
        "unat (Gas (contract fr1)) + unat cost = unat (Gas c)"
      using ch k(3) by (auto simp: charged_def)
    have "unat (Gas (contract fr3)) \<le> unat (Gas c)" using call(3)
    proof (cases rule: opCall_gas)
      case 1
      then show ?thesis using f2 g1 by simp
    next
      case (2 g a v rest)
      have "stipend v + unat (callGasTemp (evm fr1)) \<le> unat cost"
        using gasCall_covers[OF m(1)] 2(1) f2(2) by simp
      then show ?thesis using 2(2)[of "unat (Gas c)"] m(2) f2 unat_lt64[of "Gas c"] by simp
    qed
    then show ?thesis using call k c f1 f2 room op by (auto simp: progress_def al_effect_def)
  next
    case callcode
    have k: "constantGas oper = 40" "al_effect i j (opCallCode :: 's executionFuncAL)" "dynamicGas oper = Some gasCallCode"
      using ij(4) op callcode(1) by (simp_all add: frontier_calls calling_def)
    obtain sz cost m where m: "gasCallCode ctx c (stack fr) sz (evm fr) (mem fr) = Some (Inr cost, evm fr1, m)"
        "unat (Gas (contract fr1)) + unat cost = unat (Gas c)"
      using ch k(3) by (auto simp: charged_def)
    have "unat (Gas (contract fr3)) \<le> unat (Gas c)" using callcode(3)
    proof (cases rule: opCallCode_gas)
      case (1 g a v rest)
      have "stipend v + unat (callGasTemp (evm fr1)) \<le> unat cost"
        using gasCallCode_covers[OF m(1)] 1(1) f2(2) by simp
      then show ?thesis using 1(2)[of "unat (Gas c)"] m(2) f2 unat_lt64[of "Gas c"] by simp
    qed
    then show ?thesis using callcode k c f1 f2 room op by (auto simp: progress_def al_effect_def)
  next
    case (plain f)
    have e: "op_effect i j f" using ij(3) plain(1) op by simp
    have "err = None \<Longrightarrow> unat (Gas (contract fr1)) < unat (Gas (contract fr))"
    proof -
      assume "err = None"
      moreover have "pays oper" unfolding op by (rule frontier_pays)
      ultimately show ?thesis using pays_charged[OF _ use ch, of f fr2 res fr3] plain(1,4) op by simp
    qed
    then show ?thesis using plain e c g1 f1 f2 room op by (auto simp: progress_def op_effect_def)
  next
    case skip
    have le: "unat (Gas (contract fr1)) \<le> unat (Gas (contract fr))" using conjunct2[OF c] g1 by linarith
    have "unat (Gas (contract fr1)) < unat (Gas (contract fr)) \<or> constantGas oper = 0"
    proof (rule disjCI)
      assume "constantGas oper \<noteq> 0"
      then have "0 < unat (constantGas oper)" by (simp add: unat_gt_0)
      then show "unat (Gas (contract fr1)) < unat (Gas (contract fr))" using conjunct2[OF c] g1 by linarith
    qed
    then show ?thesis using skip f1 f2 le by (auto simp: progress_def)
  qed
qed

lemma step_Return:
  assumes "run_step newFrontierInstructionSet ctx h isPar cp fr = Some (Return res err cp' fr')"
  shows "unat (Gas (contract fr')) \<le> unat (Gas (contract fr))"
  using assms
proof (cases rule: run_step_cases)
  case (exec c fr1 cp2 fr2 res err cp3 fr3)
  have "progress (newFrontierInstructionSet (GetOp (pc fr) (contract fr))) isPar cp fr err cp3 fr3"
    using exec_progress[OF refl exec(1-6)] .
  moreover have "fr' = fr3" using exec(7) by (simp split: if_splits)
  ultimately show ?thesis by (simp add: progress_def)
qed simp

lemma step_Continue:
  assumes "run_step newFrontierInstructionSet ctx h isPar cp fr = Some (Continue cp' fr')"
  obtains fr3 where "fr' = fr3\<lparr>pc := pc fr3 + 1\<rparr>"
    "progress (newFrontierInstructionSet (GetOp (pc fr) (contract fr))) isPar cp fr None cp' fr3"
    "isPar \<longrightarrow> cp'"
  using assms
proof (cases rule: run_step_cases)
  case (exec c fr1 cp2 fr2 res err cp3 fr3)
  have "progress (newFrontierInstructionSet (GetOp (pc fr) (contract fr))) isPar cp fr err cp3 fr3"
    using exec_progress[OF refl exec(1-6)] .
  moreover have "err = None" "cp3 = cp'" "fr' = fr3\<lparr>pc := pc fr3 + 1\<rparr>" "isPar \<longrightarrow> cp'"
    using exec(7) by (auto split: if_splits)
  ultimately show ?thesis using that by blast
qed simp

text \<open>
  A serial run in which \<open>CanParallel\<close> has become false executes nothing but creations: it walks
  through the code, wrapping around at \<open>2 ^ 64\<close>, and ends because the instruction that set the flag
  is charged each time it is passed.
\<close>

lemma skipping_loop_returns:
  assumes "0 < constantGas (newFrontierInstructionSet (GetOp p0 (contract fr)) :: 's operation)"
  shows "\<exists>r. run_loop newFrontierInstructionSet ctx h False False fr = Some r"
  using assms
proof (induction "unat (Gas (contract fr))" arbitrary: fr rule: less_induct)
  case gas: less
  show ?case using gas(2,1)
  proof (induction "unat (p0 - pc fr)" arbitrary: fr rule: less_induct)
    case less
    show ?case
    proof (cases "run_step newFrontierInstructionSet ctx h False False fr")
      case None
      then show ?thesis by (subst run_loop.simps) simp
    next
      case (Some out)
      show ?thesis
      proof (cases out)
        case (Return res err cp fr')
        then show ?thesis using Some by (subst run_loop.simps) simp
      next
        case (Continue cp' fr')
        from step_Continue[OF Some[unfolded Continue]] obtain fr3 where fr3: "fr' = fr3\<lparr>pc := pc fr3 + 1\<rparr>"
          and p: "progress (newFrontierInstructionSet (GetOp (pc fr) (contract fr))) False False fr None cp' fr3"
          by blast
        have same: "\<not> cp'" "pc fr' = pc fr + 1" "GetOp p0 (contract fr') = GetOp p0 (contract fr)"
          using p fr3 by (simp_all add: progress_def GetOp_def)
        have "\<exists>r. run_loop newFrontierInstructionSet ctx h False False fr' = Some r"
        proof (cases "unat (Gas (contract fr')) < unat (Gas (contract fr))")
          case True
          then show ?thesis using less(3)[of fr'] less(2) same(3) by simp
        next
          case False
          then have eq: "unat (Gas (contract fr')) = unat (Gas (contract fr))"
            and free: "constantGas (newFrontierInstructionSet (GetOp (pc fr) (contract fr)) :: 's operation) = 0"
            using p fr3 by (auto simp: progress_def)
          then have "p0 - pc fr \<noteq> 0" using less(2) by auto
          then have "unat (p0 - (pc fr + 1)) < unat (p0 - pc fr)"
            by (simp add: diff_diff_eq[symmetric] unat_minus_one unat_gt_0)
          then show ?thesis using less(1)[of fr'] less(2,3) same eq by simp
        qed
        then show ?thesis using Some Continue same(1) by (subst run_loop.simps) simp
      qed
    qed
  qed
qed

lemma loop_returns:
  "isPar \<or> cp \<Longrightarrow> \<exists>r. run_loop newFrontierInstructionSet ctx h isPar cp fr = Some r"
proof (induction "unat (Gas (contract fr))" arbitrary: fr cp rule: less_induct)
  case less
  show ?case
  proof (cases "run_step newFrontierInstructionSet ctx h isPar cp fr")
    case None
    then show ?thesis by (subst run_loop.simps) simp
  next
    case (Some out)
    show ?thesis
    proof (cases out)
      case (Return res err cp fr')
      then show ?thesis using Some by (subst run_loop.simps) simp
    next
      case (Continue cp' fr')
      from step_Continue[OF Some[unfolded Continue]] obtain fr3 where fr3: "fr' = fr3\<lparr>pc := pc fr3 + 1\<rparr>"
        and p: "progress (newFrontierInstructionSet (GetOp (pc fr) (contract fr))) isPar cp fr None cp' fr3"
          "isPar \<longrightarrow> cp'"
        by blast
      have gas: "unat (Gas (contract fr')) < unat (Gas (contract fr))"
        using p less(2) fr3 by (auto simp: progress_def)
      have "\<exists>r. run_loop newFrontierInstructionSet ctx h isPar cp' fr' = Some r"
      proof (cases "isPar \<or> cp'")
        case True
        then show ?thesis using less(1)[OF gas] by blast
      next
        case False
        moreover have "GetOp (pc fr) (contract fr') = GetOp (pc fr) (contract fr)"
          using p(1) fr3 by (simp add: progress_def GetOp_def)
        ultimately have "0 < constantGas (newFrontierInstructionSet (GetOp (pc fr) (contract fr')) :: 's operation)"
          using p(1) less(2) by (simp add: progress_def)
        then show ?thesis using skipping_loop_returns False by simp
      qed
      then show ?thesis using Some Continue by (subst run_loop.simps) simp
    qed
  qed
qed

lemma loop_gas:
  assumes "run_loop newFrontierInstructionSet ctx h isPar cp fr = Some (Some (res, fr'))"
  shows "unat (Gas (contract fr')) \<le> unat (Gas (contract fr))"
proof (rule loop_invariant[OF assms, where I = "\<lambda>_ f. unat (Gas (contract f)) \<le> unat (Gas (contract fr))"
      and Q = "\<lambda>_ f. unat (Gas (contract f)) \<le> unat (Gas (contract fr))"])
  fix cp f cp' f'
  assume "run_step newFrontierInstructionSet ctx h isPar cp f = Some (Continue cp' f')"
    "unat (Gas (contract f)) \<le> unat (Gas (contract fr))"
  then show "unat (Gas (contract f')) \<le> unat (Gas (contract fr))"
    by (auto elim!: step_Continue simp: progress_def)
next
  fix cp f r e c f'
  assume "run_step newFrontierInstructionSet ctx h isPar cp f = Some (Return r e c f')"
    "unat (Gas (contract f)) \<le> unat (Gas (contract fr))"
  then show "unat (Gas (contract f')) \<le> unat (Gas (contract fr))" using step_Return by fastforce
qed simp

end

subsection \<open>The depth of the machine\<close>

lemma exec_depth:
  assumes k: "keeps_depth h" and ok: "entry_ok oper"
    and charge: "charge_dynamic oper ctx (fr\<lparr>contract := c\<rparr>) = Some (None, fr1)"
    and tr: "track_access op ctx isPar cp fr1 = Some (cp2, fr2)"
    and di: "dispatch oper op ctx h isPar cp2 fr2 = Some ((res, err, cp3), fr3)"
  shows "depth (evm fr2) = depth (evm fr)" "depth (evm fr3) = depth (evm fr)"
proof -
  show d2: "depth (evm fr2) = depth (evm fr)"
    using charge_dynamic_depth[OF charge ok] track_access_keeps[OF tr] by simp
  obtain i j where ij: "\<And>f. execute oper = Some f \<Longrightarrow> op_effect i j f" "\<And>f. executeAL oper = Some f \<Longrightarrow> al_effect i j f"
    using ok unfolding entry_ok_def by blast
  have al: "depth (evm fr'') = depth (evm fr')" if "executeAL oper = Some f" "f h p fr' = Some ((r, e, b), fr'')"
    for f p fr' r e b fr''
    using ij(2)[OF that(1)] that(2) k unfolding al_effect_def by blast
  have ex: "depth (evm fr'') = depth (evm fr')" if "execute oper = Some f" "f ctx fr' = Some ((r, e), fr'')"
    for f fr' r e fr''
    using ij(1)[OF that(1)] that(2) unfolding op_effect_def by blast
  show "depth (evm fr3) = depth (evm fr)"
    using di d2 by (auto simp: dispatch_def Option.bind_eq_Some_conv split: if_splits dest!: al ex)
qed

lemma step_depth:
  assumes "run_step newFrontierInstructionSet ctx h isPar cp fr = Some out" "keeps_depth h"
  shows "(\<forall>cp' fr'. out = Continue cp' fr' \<longrightarrow> depth (evm fr') = depth (evm fr)) \<and>
     (\<forall>r e cp' fr'. out = Return r e cp' fr' \<longrightarrow> depth (evm fr') = depth (evm fr))"
  using assms(1)
proof (cases rule: run_step_cases)
  case (early e fr')
  then show ?thesis using charge_dynamic_depth[OF _ frontier_ok] by fastforce
next
  case (exec c fr1 cp2 fr2 res err cp3 fr3)
  have "depth (evm fr3) = depth (evm fr)" using exec_depth(2)[OF assms(2) frontier_ok exec(4-6)] .
  then show ?thesis using exec(7) by (auto split: if_splits)
qed

lemma loop_depth:
  assumes "run_loop newFrontierInstructionSet ctx h isPar cp fr = Some (Some (res, fr'))" "keeps_depth h"
  shows "depth (evm fr') = depth (evm fr)"
proof (rule loop_invariant[OF assms(1), where I = "\<lambda>_ f. depth (evm f) = depth (evm fr)"
      and Q = "\<lambda>_ f. depth (evm f) = depth (evm fr)"])
qed (use step_depth[OF _ assms(2)] in fastforce)+

end
