(* ===== verification/EVMCall.thy ===== *)
theory EVMCall
  imports EVMTerm
begin

text \<open>
  Message calls and contract creation (\<open>evm.go\<close>), the native contract wrapper (\<open>contracts.go\<close>) and
  the value transfer of \<open>core/pvm.go\<close>.

  Interpreter and calls are mutually recursive. The functions of \<open>evm.go\<close> take the interpreter as
  an argument, and \<open>evm_host n\<close> ties the knot \<open>n\<close> times: its level 0 has no interpreter. A call at a
  depth above 1024 is refused before it reaches the interpreter, so \<open>n\<close> levels are enough whenever
  depth and \<open>n\<close> add up to more than 1024 (\<open>host_levels_enough\<close>), and the machine uses 1026.
\<close>

subsection \<open>Value transfer (\<open>core/pvm.go\<close>)\<close>

definition pvm_CanTransfer :: "'s StateDB \<Rightarrow> 's \<Rightarrow> address \<Rightarrow> int \<Rightarrow> bool" where
  "pvm_CanTransfer db s addr amount \<longleftrightarrow> GetBalance db addr s \<ge> amount"

definition pvm_Transfer :: "'s StateDB \<Rightarrow> 's \<Rightarrow> address \<Rightarrow> address \<Rightarrow> int \<Rightarrow> 's" where
  "pvm_Transfer db s sender recipient amount =
     AddBalance db recipient amount (SubBalance db sender amount s)"

subsection \<open>Calls\<close>

definition RunPrecompiledContract :: "PrecompiledContract \<Rightarrow> bytes \<Rightarrow> u64 \<Rightarrow> bytes \<times> u64 \<times> evm_error option" where
  "RunPrecompiledContract p inp suppliedGas =
     (let gasCost = RequiredGas p inp in
      if suppliedGas < gasCost then ([], 0, Some ErrOutOfGas)
      else let (output, err) = precompiled_Run p inp in (output, suppliedGas - gasCost, err))"

type_synonym 's runner =
  "Contract \<Rightarrow> bytes \<Rightarrow> bool \<Rightarrow> bool \<Rightarrow> 's EVM \<Rightarrow> ((bytes \<times> evm_error option \<times> bool) \<times> Contract \<times> 's EVM) option"

text \<open>The common end: an error reverts the state to the snapshot.\<close>

definition finish_call ::
    "'s Context \<Rightarrow> int \<Rightarrow> bytes \<Rightarrow> u64 \<Rightarrow> bool \<Rightarrow> evm_error option \<Rightarrow> 's EVM \<Rightarrow> 's call_result" where
  "finish_call ctx snapshot ret gas canParallel err e =
     (if err \<noteq> None
      then do { s \<leftarrow> RevertToSnapshot (sdb ctx) snapshot (state e);
                Some ((ret, gas, canParallel, err), e\<lparr>state := s\<rparr>) }
      else Some ((ret, gas, canParallel, err), e))"

definition CallCreateDepth :: int where
  "CallCreateDepth = 1024"

definition take_snapshot :: "'s Context \<Rightarrow> 's EVM \<Rightarrow> int \<times> 's EVM" where
  "take_snapshot ctx e = (let (snapshot, s) = Snapshot (sdb ctx) (state e) in (snapshot, e\<lparr>state := s\<rparr>))"

text \<open>Running the code of \<open>addr\<close> in a new contract, and a native contract.\<close>

definition run_contract ::
    "'s Context \<Rightarrow> 's runner \<Rightarrow> int \<Rightarrow> Contract \<times> jumpdests \<Rightarrow> bytes \<Rightarrow> bool \<Rightarrow> bool \<Rightarrow> 's EVM \<Rightarrow> 's call_result" where
  "run_contract ctx run snapshot cj inp ro isParallel e =
     (case cj of (c, jd) \<Rightarrow> do {
        ((ret, err, canParallel), c, e) \<leftarrow> run c inp ro isParallel (e\<lparr>jumpdests := jd\<rparr>);
        finish_call ctx snapshot ret (Gas c) canParallel err e })"

definition run_native ::
    "'s Context \<Rightarrow> int \<Rightarrow> PrecompiledContract \<Rightarrow> bytes \<Rightarrow> u64 \<Rightarrow> bool \<Rightarrow> 's EVM \<Rightarrow> 's call_result" where
  "run_native ctx snapshot p inp gas canParallel e =
     (case RunPrecompiledContract p inp gas of (ret, gas, err) \<Rightarrow> finish_call ctx snapshot ret gas canParallel err e)"

definition Call ::
    "'s Context \<Rightarrow> 's runner \<Rightarrow> ContractRef \<Rightarrow> address \<Rightarrow> bytes \<Rightarrow> u64 \<Rightarrow> int \<Rightarrow> bool \<Rightarrow> 's EVM \<Rightarrow> 's call_result" where
  "Call ctx run caller' addr inp gas val isParallel e =
     (if depth e > CallCreateDepth then Some (([], gas, True, Some ErrDepth), e)
      else if val \<noteq> 0 \<and> \<not> CanTransfer ctx (state e) (ref_Address caller') val
      then Some (([], gas, True, Some ErrInsufficientBalance), e)
      else let (snapshot, e) = take_snapshot ctx e; p = precompile ctx addr in
        if \<not> Exist (sdb ctx) addr (state e) \<and> p = None \<and> val = 0
        then Some (([], gas, True, Some (ErrNew ''contract address is not exist'')), e)
        else let e = (if \<not> Exist (sdb ctx) addr (state e) then upd_state (CreateAccount (sdb ctx) addr) e else e);
                 e = upd_state (\<lambda>s. Transfer ctx s (ref_Address caller') addr val) e
             in case p of
                  Some p \<Rightarrow> run_native ctx snapshot p inp gas False e
                | None \<Rightarrow>
                    let code = GetCode (sdb ctx) addr (state e) in
                    if length code = 0 then Some (([], gas, True, None), e)
                    else let (c, jd) = NewContract caller' addr (Some val) gas (jumpdests e);
                             c = SetCallCode (Some addr) (GetCodeHash (sdb ctx) addr (state e)) code c
                         in run_contract ctx run snapshot (c, jd) inp False isParallel e)"

definition CallCode ::
    "'s Context \<Rightarrow> 's runner \<Rightarrow> ContractRef \<Rightarrow> address \<Rightarrow> bytes \<Rightarrow> u64 \<Rightarrow> int \<Rightarrow> bool \<Rightarrow> 's EVM \<Rightarrow> 's call_result" where
  "CallCode ctx run caller' addr inp gas val isParallel e =
     (if depth e > CallCreateDepth then Some (([], gas, True, Some ErrDepth), e)
      else if \<not> CanTransfer ctx (state e) (ref_Address caller') val
      then Some (([], gas, True, Some ErrInsufficientBalance), e)
      else let (snapshot, e) = take_snapshot ctx e in
        case precompile ctx addr of
          Some p \<Rightarrow> run_native ctx snapshot p inp gas True e
        | None \<Rightarrow>
            let (c, jd) = NewContract caller' (ref_Address caller') (Some val) gas (jumpdests e);
                c = SetCallCode (Some addr) (GetCodeHash (sdb ctx) addr (state e)) (GetCode (sdb ctx) addr (state e)) c
            in run_contract ctx run snapshot (c, jd) inp False isParallel e)"

definition DelegateCall ::
    "'s Context \<Rightarrow> 's runner \<Rightarrow> ContractRef \<Rightarrow> address \<Rightarrow> bytes \<Rightarrow> u64 \<Rightarrow> bool \<Rightarrow> 's EVM \<Rightarrow> 's call_result" where
  "DelegateCall ctx run caller' addr inp gas isParallel e =
     (if depth e > CallCreateDepth then Some (([], gas, True, Some ErrDepth), e)
      else let (snapshot, e) = take_snapshot ctx e in
        case precompile ctx addr of
          Some p \<Rightarrow> run_native ctx snapshot p inp gas True e
        | None \<Rightarrow>
            let (c, jd) = NewContract caller' (ref_Address caller') None gas (jumpdests e) in do {
              c \<leftarrow> AsDelegate c;
              let c = SetCallCode (Some addr) (GetCodeHash (sdb ctx) addr (state e)) (GetCode (sdb ctx) addr (state e)) c in
              run_contract ctx run snapshot (c, jd) inp False isParallel e })"

definition StaticCall ::
    "'s Context \<Rightarrow> 's runner \<Rightarrow> ContractRef \<Rightarrow> address \<Rightarrow> bytes \<Rightarrow> u64 \<Rightarrow> bool \<Rightarrow> 's EVM \<Rightarrow> 's call_result" where
  "StaticCall ctx run caller' addr inp gas isParallel e =
     (if depth e > CallCreateDepth then Some (([], gas, True, Some ErrDepth), e)
      else let (snapshot, e) = take_snapshot ctx e;
               e = upd_state (AddBalance (sdb ctx) addr 0) e
        in case precompile ctx addr of
          Some p \<Rightarrow> run_native ctx snapshot p inp gas True e
        | None \<Rightarrow>
            let (c, jd) = NewContract caller' addr (Some 0) gas (jumpdests e);
                c = SetCallCode (Some addr) (GetCodeHash (sdb ctx) addr (state e)) (GetCode (sdb ctx) addr (state e)) c
            in run_contract ctx run snapshot (c, jd) inp True isParallel e)"

subsection \<open>Creation\<close>

definition EmptyCodeHash :: hash where
  "EmptyCodeHash = 0xc5d2460186f7233c927e7db2dcc703c0e500b653ca82273b7bfad8045d85a470"

definition MaxCodeSize :: nat where
  "MaxCodeSize = 24576"

definition create ::
    "'s Context \<Rightarrow> 's runner \<Rightarrow> ContractRef \<Rightarrow> bytes \<times> hash \<Rightarrow> u64 \<Rightarrow> int \<Rightarrow> address \<Rightarrow> bool \<Rightarrow> 's EVM \<Rightarrow> 's create_result" where
  "create ctx run caller' codeAndHash gas val address isParallel e =
     (let db = sdb ctx; me = ref_Address caller'; nonce = GetNonce db me (state e) in
      if depth e > CallCreateDepth then Some (([], address, gas, True, Some (ErrNew ''max call depth exceeded'')), e)
      else if \<not> CanTransfer ctx (state e) me val
      then Some (([], address, gas, True, Some (ErrNew ''insufficient balance for transfer'')), e)
      else if nonce + 1 < nonce then Some (([], address, gas, True, Some (ErrNew ''nonce uint64 overflow'')), e)
      else let e = upd_state (SetNonce db me (nonce + 1)) e; contractHash = GetCodeHash db address (state e) in
        if GetNonce db address (state e) \<noteq> 0 \<or> contractHash \<noteq> 0 \<and> contractHash \<noteq> EmptyCodeHash
        then Some (([], address, gas, True, Some (ErrNew ''contract address collision'')), e)
        else let (snapshot, e) = take_snapshot ctx e;
                 e = upd_state (CreateAccount db address) e;
                 e = upd_state (\<lambda>s. Transfer ctx s me address val) e;
                 (c, jd) = NewContract caller' address (Some val) gas (jumpdests e);
                 c = SetCodeOptionalHash (Some address) codeAndHash c
             in do {
               ((ret, err, canParallel), c, e) \<leftarrow> run c [] False isParallel (e\<lparr>jumpdests := jd\<rparr>);
               if err = None \<and> length ret > MaxCodeSize
               then Some (([], address, 0, True, Some (ErrNew ''max code size exceeded'')), e)
               else if err = None
               then (case UseGas (of_nat (length ret) * 200) c of
                       (True, c) \<Rightarrow> Some ((ret, address, Gas c, canParallel, err), upd_state (SetCode db address ret) e)
                     | (False, _) \<Rightarrow>
                         Some (([], address, 0, True, Some (ErrNew ''contract creation code storage out of gas'')), e))
               else do { s \<leftarrow> RevertToSnapshot db snapshot (state e);
                         Some ((ret, address, Gas c, canParallel, err), e\<lparr>state := s\<rparr>) } })"

definition Create ::
    "'s Context \<Rightarrow> 's runner \<Rightarrow> ContractRef \<Rightarrow> bytes \<Rightarrow> u64 \<Rightarrow> int \<Rightarrow> bool \<Rightarrow> 's EVM \<Rightarrow> 's create_result" where
  "Create ctx run caller' code gas val isParallel e =
     (let contractAddr = CreateAddress ctx (ref_Address caller') (GetNonce (sdb ctx) (ref_Address caller') (state e))
      in create ctx run caller' (code, 0) gas val contractAddr isParallel e)"

definition Create2 ::
    "'s Context \<Rightarrow> 's runner \<Rightarrow> ContractRef \<Rightarrow> bytes \<Rightarrow> u64 \<Rightarrow> int \<Rightarrow> u256 \<Rightarrow> bool \<Rightarrow> 's EVM \<Rightarrow> 's create_result" where
  "Create2 ctx run caller' code gas endowment salt isParallel e =
     (let h = keccak256 ctx code;
          contractAddr = CreateAddress2 ctx (ref_Address caller') salt h
      in create ctx run caller' (code, h) gas endowment contractAddr isParallel e)"

subsection \<open>The machine\<close>

definition make_host :: "'s Context \<Rightarrow> 's runner \<Rightarrow> 's host" where
  "make_host ctx run = \<lparr>host_Call = Call ctx run, host_CallCode = CallCode ctx run,
     host_DelegateCall = DelegateCall ctx run, host_StaticCall = StaticCall ctx run,
     host_Create = Create ctx run, host_Create2 = Create2 ctx run\<rparr>"

primrec evm_host :: "nat \<Rightarrow> 's Context \<Rightarrow> 's host" where
  "evm_host 0 ctx = make_host ctx (\<lambda>_ _ _ _ _. None)"
| "evm_host (Suc n) ctx = make_host ctx (Run newFrontierInstructionSet ctx (evm_host n ctx))"

definition evm_levels :: nat where
  "evm_levels = 1026"

definition evm_Call :: "'s Context \<Rightarrow> ContractRef \<Rightarrow> address \<Rightarrow> bytes \<Rightarrow> u64 \<Rightarrow> int \<Rightarrow> bool \<Rightarrow> 's EVM \<Rightarrow> 's call_result" where
  "evm_Call ctx = host_Call (evm_host evm_levels ctx)"

definition evm_Create :: "'s Context \<Rightarrow> ContractRef \<Rightarrow> bytes \<Rightarrow> u64 \<Rightarrow> int \<Rightarrow> bool \<Rightarrow> 's EVM \<Rightarrow> 's create_result" where
  "evm_Create ctx = host_Create (evm_host evm_levels ctx)"

subsection \<open>Calls return no more gas than they get, at the same depth\<close>

definition runner_ok :: "'s runner \<Rightarrow> bool" where
  "runner_ok run \<longleftrightarrow> (\<forall>c inp ro p e r c' e'. run c inp ro p e = Some (r, c', e') \<longrightarrow>
     Gas c' \<le> Gas c \<and> depth e' = depth e)"

lemma depth_take_snapshot [simp]: "take_snapshot ctx e = (sn, e') \<Longrightarrow> depth e' = depth e"
  by (auto simp: take_snapshot_def split: prod.splits)

lemma finish_call_keeps:
  "finish_call ctx sn ret gas cp err e = Some r \<Longrightarrow> fst (snd (fst r)) = gas \<and> depth (snd r) = depth e"
  by (auto simp: finish_call_def Option.bind_eq_Some_conv split: if_splits)

lemma run_native_keeps:
  assumes "run_native ctx sn p inp gas cp e = Some r"
  shows "fst (snd (fst r)) \<le> gas \<and> depth (snd r) = depth e"
proof -
  obtain ret g err where q: "RunPrecompiledContract p inp gas = (ret, g, err)" by (metis prod_cases3)
  then have "g \<le> gas"
    by (auto simp: RunPrecompiledContract_def Let_def word_le_nat_alt not_less unat_sub split: if_splits prod.splits)
  then show ?thesis using assms q finish_call_keeps[of ctx sn ret g cp err e r] by (simp add: run_native_def)
qed

lemma run_contract_keeps:
  assumes "runner_ok run" "run_contract ctx run sn (c, jd) inp ro p e = Some r"
  shows "fst (snd (fst r)) \<le> Gas c \<and> depth (snd r) = depth e"
proof -
  obtain ret err cp c' e' where q: "run c inp ro p (e\<lparr>jumpdests := jd\<rparr>) = Some ((ret, err, cp), c', e')"
      and f: "finish_call ctx sn ret (Gas c') cp err e' = Some r"
    using assms(2) by (auto simp: run_contract_def Option.bind_eq_Some_conv)
  have "Gas c' \<le> Gas c \<and> depth e' = depth e" using assms(1) q unfolding runner_ok_def by fastforce
  then show ?thesis using finish_call_keeps[OF f] by simp
qed

lemma Gas_NewContract: "Gas (fst (NewContract cr a v g jd)) = g"
  by (simp add: NewContract_def)

lemma Gas_SetCallCode [simp]: "Gas (SetCallCode a h' code c) = Gas c"
  by (simp add: SetCallCode_def)

lemma Call_keeps:
  assumes ok: "runner_ok run" and call: "Call ctx run cr a inp g v p e = Some r"
  shows "fst (snd (fst r)) \<le> g \<and> depth (snd r) = depth e"
proof -
  obtain sn e1 where sn: "take_snapshot ctx e = (sn, e1)" by force
  define e2 where "e2 = (if \<not> Exist (sdb ctx) a (state e1) then upd_state (CreateAccount (sdb ctx) a) e1 else e1)"
  define e3 where "e3 = upd_state (\<lambda>s. Transfer ctx s (ref_Address cr) a v) e2"
  have d: "depth e1 = depth e" "depth e3 = depth e" using sn by (simp_all add: e2_def e3_def)
  obtain c jd where c: "NewContract cr a (Some v) g (jumpdests e3) = (c, jd)" by force
  have g: "Gas c = g" using Gas_NewContract[of cr a "Some v" g "jumpdests e3"] c by simp
  have "r = (([], g, True, Some ErrDepth), e) \<or> r = (([], g, True, Some ErrInsufficientBalance), e) \<or>
      r = (([], g, True, Some (ErrNew ''contract address is not exist'')), e1) \<or> r = (([], g, True, None), e3) \<or>
      (\<exists>q. run_native ctx sn q inp g False e3 = Some r) \<or>
      (\<exists>hs code. run_contract ctx run sn (SetCallCode (Some a) hs code c, jd) inp False p e3 = Some r)"
    using call unfolding Call_def sn Let_def prod.case e2_def[symmetric] e3_def[symmetric] c
    by (auto split: if_splits option.splits)
  then show ?thesis
    using d g run_native_keeps[of ctx sn _ inp g False e3 r] run_contract_keeps[OF ok, of ctx sn _ jd inp False p e3 r]
    by fastforce
qed

lemma CallCode_keeps:
  assumes ok: "runner_ok run" and call: "CallCode ctx run cr a inp g v p e = Some r"
  shows "fst (snd (fst r)) \<le> g \<and> depth (snd r) = depth e"
proof -
  obtain sn e1 where sn: "take_snapshot ctx e = (sn, e1)" by force
  obtain c jd where c: "NewContract cr (ref_Address cr) (Some v) g (jumpdests e1) = (c, jd)" by force
  have g: "Gas c = g" using Gas_NewContract[of cr "ref_Address cr" "Some v" g "jumpdests e1"] c by simp
  have "r = (([], g, True, Some ErrDepth), e) \<or> r = (([], g, True, Some ErrInsufficientBalance), e) \<or>
      (\<exists>q. run_native ctx sn q inp g True e1 = Some r) \<or>
      (\<exists>hs code. run_contract ctx run sn (SetCallCode (Some a) hs code c, jd) inp False p e1 = Some r)"
    using call unfolding CallCode_def sn Let_def prod.case c by (auto split: if_splits option.splits)
  then show ?thesis
    using sn g run_native_keeps[of ctx sn _ inp g True e1 r] run_contract_keeps[OF ok, of ctx sn _ jd inp False p e1 r]
    by fastforce
qed

lemma create_keeps:
  assumes ok: "runner_ok run" and call: "create ctx run cr ch g v a p e = Some r"
  shows "fst (snd (snd (fst r))) \<le> g \<and> depth (snd r) = depth e"
proof -
  define e1 where "e1 = upd_state (SetNonce (sdb ctx) (ref_Address cr) (GetNonce (sdb ctx) (ref_Address cr) (state e) + 1)) e"
  obtain sn e2 where sn: "take_snapshot ctx e1 = (sn, e2)" by force
  define e3 where "e3 = upd_state (CreateAccount (sdb ctx) a) e2"
  define e4 where "e4 = upd_state (\<lambda>s. Transfer ctx s (ref_Address cr) a v) e3"
  obtain c0 jd where c0: "NewContract cr a (Some v) g (jumpdests e4) = (c0, jd)" by force
  define c1 where "c1 = SetCodeOptionalHash (Some a) ch c0"
  have g: "Gas c1 = g"
    using Gas_NewContract[of cr a "Some v" g "jumpdests e4"] c0 by (simp add: c1_def SetCodeOptionalHash_def)
  have d: "depth e1 = depth e" "depth e4 = depth e" using sn by (simp_all add: e1_def e3_def e4_def)
  have "fst (snd (snd (fst r))) = g \<and> (snd r = e \<or> snd r = e1) \<or>
     (\<exists>ret err cp c e5. run c1 [] False p (e4\<lparr>jumpdests := jd\<rparr>) = Some ((ret, err, cp), c, e5) \<and>
        depth (snd r) = depth e5 \<and>
        (fst (snd (snd (fst r))) = 0 \<or> fst (snd (snd (fst r))) = Gas c \<or>
         (\<exists>c'. UseGas (of_nat (length ret) * 200) c = (True, c') \<and> fst (snd (snd (fst r))) = Gas c')))"
    using call unfolding create_def Let_def e1_def[symmetric] sn prod.case e3_def[symmetric] e4_def[symmetric]
      c0 c1_def[symmetric]
    by (auto simp: Option.bind_eq_Some_conv split: if_splits prod.splits bool.splits)
  then show ?thesis
  proof (elim disjE exE conjE)
    fix ret err cp c e5
    assume run: "run c1 [] False p (e4\<lparr>jumpdests := jd\<rparr>) = Some ((ret, err, cp), c, e5)"
      and dr: "depth (snd r) = depth e5"
    have c: "Gas c \<le> g" "depth e5 = depth e" using ok run g d unfolding runner_ok_def by fastforce+
    { assume "fst (snd (snd (fst r))) = 0" then show ?thesis using c dr by simp }
    { assume "fst (snd (snd (fst r))) = Gas c" then show ?thesis using c dr by simp }
    { fix c' assume u: "UseGas (of_nat (length ret) * 200) c = (True, c')" "fst (snd (snd (fst r))) = Gas c'"
      have "unat (Gas c') \<le> unat (Gas c)" using conjunct2[OF UseGas_Some[OF u(1)]] by linarith
      then show ?thesis using u(2) c dr by (simp add: word_le_nat_alt) }
  qed (use d in auto)
qed

lemma make_host_gas: "runner_ok run \<Longrightarrow> gas_host (make_host ctx run)"
  using Call_keeps CallCode_keeps create_keeps
  by unfold_locales (fastforce simp: make_host_def Create_def Let_def)+

lemma make_host_depth: "runner_ok run \<Longrightarrow> keeps_depth (make_host ctx run)"
  using Call_keeps CallCode_keeps create_keeps
  unfolding keeps_depth_def by (fastforce simp: make_host_def Create_def Let_def)

lemma Run_ok:
  assumes "gas_host h" "keeps_depth h"
  shows "runner_ok (Run newFrontierInstructionSet ctx h)"
  unfolding runner_ok_def
proof (intro allI impI)
  fix c inp ro p e r c' e'
  assume run: "Run newFrontierInstructionSet ctx h c inp ro p e = Some (r, c', e')"
  let ?e = "e\<lparr>depth := depth e + 1, readOnly := readOnly e \<or> ro\<rparr>"
  show "Gas c' \<le> Gas c \<and> depth e' = depth e"
  proof (cases "length (Code c) = 0")
    case True
    then show ?thesis using run by (simp add: Run_def)
  next
    case False
    then obtain res fr where l: "run_loop newFrontierInstructionSet ctx h p True (start_frame inp c ?e) = Some (Some (res, fr))"
        and c': "c' = contract fr" and e': "depth e' = depth (evm fr) - 1"
      using run by (auto simp: Run_def Let_def Option.bind_eq_Some_conv)
    show ?thesis
      using gas_host.loop_gas[OF assms(1) l] loop_depth[OF l assms(2)] c' e'
      by (simp add: start_frame_def word_le_nat_alt)
  qed
qed

lemma evm_host_ok: "gas_host (evm_host n ctx) \<and> keeps_depth (evm_host n ctx)"
proof (induction n)
  case 0
  have "runner_ok (\<lambda>_ _ _ _ _. None)" by (simp add: runner_ok_def)
  then show ?case using make_host_gas make_host_depth by auto
next
  case (Suc n)
  then show ?case using Run_ok make_host_gas make_host_depth by fastforce
qed

interpretation evm: gas_host "evm_host n ctx" for n ctx
  using evm_host_ok by blast

subsection \<open>Enough levels\<close>

definition agree :: "int \<Rightarrow> 's host \<Rightarrow> 's host \<Rightarrow> bool" where
  "agree D h1 h2 \<longleftrightarrow> (\<forall>e. depth e = D \<longrightarrow>
     (\<forall>c a i g v p. host_Call h1 c a i g v p e = host_Call h2 c a i g v p e) \<and>
     (\<forall>c a i g v p. host_CallCode h1 c a i g v p e = host_CallCode h2 c a i g v p e) \<and>
     (\<forall>c i g v p. host_Create h1 c i g v p e = host_Create h2 c i g v p e))"

definition runner_agree :: "int \<Rightarrow> 's runner \<Rightarrow> 's runner \<Rightarrow> bool" where
  "runner_agree D r1 r2 \<longleftrightarrow> (\<forall>c inp ro p e. depth e = D \<longrightarrow> r1 c inp ro p e = r2 c inp ro p e)"

lemma al_agree:
  assumes "agree (depth (evm fr)) h1 h2"
  shows "opCreate h1 p fr = opCreate h2 p fr" "opCall h1 p fr = opCall h2 p fr" "opCallCode h1 p fr = opCallCode h2 p fr"
  using assms unfolding agree_def by (simp_all add: opCreate_def opCall_def opCallCode_def Let_def cong: if_cong)

lemma call_no_create: "\<not> is_create CALL" "\<not> is_create CALLCODE"
  by (simp_all add: is_create_def CALL_def CALLCODE_def CREATE_def CREATE2_def)

lemma dispatch_agree:
  assumes "agree (depth (evm fr)) h1 h2"
  shows "dispatch (newFrontierInstructionSet op) op ctx h1 isPar cp fr = dispatch (newFrontierInstructionSet op) op ctx h2 isPar cp fr"
proof (cases "is_create op \<or> is_call op")
  case True
  then consider "op = CREATE" | "op = CREATE2" | "op = CALL" | "op = CALLCODE" | "op = DELEGATECALL" | "op = STATICCALL"
    by (auto simp: is_create_def is_call_def)
  then show ?thesis
    using al_agree[OF assms] create_no_call call_no_create
    by cases (simp_all add: dispatch_def frontier_calls calling_def undefined_operation_def cong: if_cong)
next
  case False
  then show ?thesis by (simp add: dispatch_def)
qed

lemma step_agree:
  fixes fr :: "'s frame"
  assumes "agree (depth (evm fr)) h1 h2"
  shows "run_step newFrontierInstructionSet ctx h1 isPar cp fr = run_step newFrontierInstructionSet ctx h2 isPar cp fr"
proof -
  define op where "op = GetOp (pc fr) (contract fr)"
  define oper :: "'s operation" where "oper = newFrontierInstructionSet op"
  note defs = run_step_def Let_def op_def[symmetric] oper_def[symmetric]
  obtain ok c where use: "UseGas (constantGas oper) (contract fr) = (ok, c)" by force
  show ?thesis
  proof (cases "ok \<and> min_stack oper \<le> length (stack fr) \<and> length (stack fr) \<le> max_stack oper")
    case False
    then show ?thesis using use by (auto simp: defs)
  next
    case True
    show ?thesis
    proof (cases "charge_dynamic oper ctx (fr\<lparr>contract := c\<rparr>)")
      case None
      then show ?thesis using use True by (simp add: defs)
    next
      case (Some q)
      obtain err fr1 where q: "q = (err, fr1)" by force
      show ?thesis
      proof (cases err)
        case (Some x)
        then show ?thesis using use True \<open>charge_dynamic _ _ _ = _\<close> q by (simp add: defs)
      next
        case err: None
        show ?thesis
        proof (cases "track_access op ctx isPar cp fr1")
          case None
          then show ?thesis using use True Some q err by (simp add: defs)
        next
          case t: (Some q2)
          obtain cp2 fr2 where q2: "q2 = (cp2, fr2)" by force
          have "entry_ok oper" unfolding oper_def by (rule frontier_ok)
          then have "depth (evm fr2) = depth (evm fr)"
            using charge_dynamic_depth[of oper ctx _ err fr1] Some q track_access_keeps[of op ctx isPar cp fr1 cp2 fr2] t q2
            by simp
          then have "dispatch oper op ctx h1 isPar cp2 fr2 = dispatch oper op ctx h2 isPar cp2 fr2"
            using dispatch_agree[of fr2 h1 h2] assms by (simp add: oper_def)
          then show ?thesis using use True Some q err t q2 by (simp add: defs)
        qed
      qed
    qed
  qed
qed

lemma loop_agree1:
  assumes "agree D h1 h2" "keeps_depth h1" "run_loop newFrontierInstructionSet ctx h1 isPar cp fr = Some r" "depth (evm fr) = D"
  shows "run_loop newFrontierInstructionSet ctx h2 isPar cp fr = Some r"
proof -
  have "t = newFrontierInstructionSet \<and> c = ctx \<and> h' = h1 \<and> depth (evm f) = D \<longrightarrow>
      run_loop newFrontierInstructionSet ctx h2 p b f = Some r"
    if "run_loop t c h' p b f = Some r" for t c h' p b f r
    using that
  proof (rule run_loop.raw_induct[rotated])
    fix loop t c h' p b f r
    assume IH: "\<And>t c h' p b f r. loop t c h' p b f = Some r \<Longrightarrow>
        t = newFrontierInstructionSet \<and> c = ctx \<and> h' = h1 \<and> depth (evm f) = D \<longrightarrow>
          run_loop newFrontierInstructionSet ctx h2 p b f = Some r"
      and body: "(case run_step t c h' p b f of None \<Rightarrow> Some None
          | Some (Continue cp fr') \<Rightarrow> loop t c h' p cp fr'
          | Some (Return res err cp fr') \<Rightarrow> Some (Some ((res, err, cp), fr'))) = Some r"
    show "t = newFrontierInstructionSet \<and> c = ctx \<and> h' = h1 \<and> depth (evm f) = D \<longrightarrow>
        run_loop newFrontierInstructionSet ctx h2 p b f = Some r"
    proof (intro impI, elim conjE)
      assume a: "t = newFrontierInstructionSet" "c = ctx" "h' = h1" "depth (evm f) = D"
      have s: "run_step newFrontierInstructionSet ctx h2 p b f = run_step newFrontierInstructionSet ctx h1 p b f"
        using step_agree[of f h1 h2 ctx p b] assms(1) a(4) by simp
      show "run_loop newFrontierInstructionSet ctx h2 p b f = Some r"
      proof (cases "run_step newFrontierInstructionSet ctx h1 p b f")
        case None
        then show ?thesis using body a s by (subst run_loop.simps) simp
      next
        case (Some out)
        then show ?thesis using body a s IH step_depth[OF Some assms(2)]
          by (subst run_loop.simps) (cases out, auto)
      qed
    qed
  qed
  from this[OF assms(3)] assms(4) show ?thesis by simp
qed

lemma agree_sym: "agree D h1 h2 \<Longrightarrow> agree D h2 h1"
  by (simp add: agree_def)

lemma loop_agree:
  assumes "agree (depth (evm fr)) h1 h2" "keeps_depth h1" "keeps_depth h2"
  shows "run_loop newFrontierInstructionSet ctx h1 isPar cp fr = run_loop newFrontierInstructionSet ctx h2 isPar cp fr"
proof (rule option.expand)
  let ?run = "\<lambda>h. run_loop newFrontierInstructionSet ctx h isPar cp fr"
  note fwd = loop_agree1[OF assms(1,2) _ refl] and bwd = loop_agree1[OF agree_sym[OF assms(1)] assms(3) _ refl]
  show "(?run h1 = None) = (?run h2 = None)"
    using fwd[of ctx isPar cp] bwd[of ctx isPar cp] by (metis not_None_eq)
  show "the (?run h1) = the (?run h2)" if "?run h1 \<noteq> None" "?run h2 \<noteq> None"
    using fwd[of ctx isPar cp] that by auto
qed

lemma Run_agree:
  assumes "agree (depth e + 1) h1 h2" "keeps_depth h1" "keeps_depth h2"
  shows "Run newFrontierInstructionSet ctx h1 c inp ro isPar e = Run newFrontierInstructionSet ctx h2 c inp ro isPar e"
proof -
  let ?fr = "start_frame inp c (e\<lparr>depth := depth e + 1, readOnly := readOnly e \<or> ro\<rparr>)"
  have "depth (evm ?fr) = depth e + 1" by (simp add: start_frame_def)
  then have "run_loop newFrontierInstructionSet ctx h1 isPar True ?fr = run_loop newFrontierInstructionSet ctx h2 isPar True ?fr"
    using loop_agree[of ?fr h1 h2 ctx isPar True] assms by simp
  then show ?thesis unfolding Run_def Let_def by simp
qed

lemma run_contract_agree:
  assumes "runner_agree (depth e) r1 r2"
  shows "run_contract ctx r1 sn cj inp ro p e = run_contract ctx r2 sn cj inp ro p e"
  using assms by (simp add: run_contract_def runner_agree_def split: prod.split)

lemma Call_agree:
  assumes "depth e \<le> CallCreateDepth \<longrightarrow> runner_agree (depth e) r1 r2"
  shows "Call ctx r1 cr a inp g v p e = Call ctx r2 cr a inp g v p e"
proof (cases "depth e \<le> CallCreateDepth")
  case True
  obtain sn e1 where sn: "take_snapshot ctx e = (sn, e1)" by force
  define e2 where "e2 = (if \<not> Exist (sdb ctx) a (state e1) then upd_state (CreateAccount (sdb ctx) a) e1 else e1)"
  define e3 where "e3 = upd_state (\<lambda>s. Transfer ctx s (ref_Address cr) a v) e2"
  have "depth e3 = depth e" using sn by (simp add: e2_def e3_def)
  then have run: "run_contract ctx r1 sn cj inp ro p e3 = run_contract ctx r2 sn cj inp ro p e3" for cj inp ro p
    using run_contract_agree[of e3 r1 r2] assms True by simp
  show ?thesis
    unfolding Call_def sn Let_def prod.case e2_def[symmetric] e3_def[symmetric] run by (rule refl)
next
  case False
  then show ?thesis by (simp add: Call_def)
qed

lemma CallCode_agree:
  assumes "depth e \<le> CallCreateDepth \<longrightarrow> runner_agree (depth e) r1 r2"
  shows "CallCode ctx r1 cr a inp g v p e = CallCode ctx r2 cr a inp g v p e"
proof (cases "depth e \<le> CallCreateDepth")
  case True
  obtain sn e1 where sn: "take_snapshot ctx e = (sn, e1)" by force
  have run: "run_contract ctx r1 sn cj inp ro p e1 = run_contract ctx r2 sn cj inp ro p e1" for cj inp ro p
    using run_contract_agree[of e1 r1 r2] sn assms True by simp
  show ?thesis unfolding CallCode_def sn Let_def prod.case run by (rule refl)
next
  case False
  then show ?thesis by (simp add: CallCode_def)
qed

lemma Create_agree:
  assumes "depth e \<le> CallCreateDepth \<longrightarrow> runner_agree (depth e) r1 r2"
  shows "Create ctx r1 cr code g v p e = Create ctx r2 cr code g v p e"
proof (cases "depth e \<le> CallCreateDepth")
  case True
  obtain sn e1 where sn: "take_snapshot ctx (upd_state (SetNonce (sdb ctx) (ref_Address cr) (GetNonce (sdb ctx) (ref_Address cr) (state e) + 1)) e) = (sn, e1)"
    by force
  have "depth e1 = depth e" using sn by simp
  then have run: "r1 c [] False p (upd_state f (upd_state f' e1)\<lparr>jumpdests := jd\<rparr>) = r2 c [] False p (upd_state f (upd_state f' e1)\<lparr>jumpdests := jd\<rparr>)"
    for c f f' jd using assms True by (simp add: runner_agree_def)
  show ?thesis unfolding Create_def create_def Let_def sn prod.case run by (rule refl)
next
  case False
  then show ?thesis by (simp add: Create_def create_def Let_def)
qed

lemma make_host_agree:
  assumes "D \<le> CallCreateDepth \<longrightarrow> runner_agree D r1 r2"
  shows "agree D (make_host ctx r1) (make_host ctx r2)"
  unfolding agree_def make_host_def host.simps
  by (intro allI impI conjI; rule Call_agree CallCode_agree Create_agree) (use assms in simp_all)

lemma host_levels_agree:
  "n \<le> m \<Longrightarrow> D + int n > CallCreateDepth \<Longrightarrow> agree D (evm_host n ctx) (evm_host m ctx)"
proof (induction n arbitrary: m D)
  case 0
  have "evm_host m ctx = make_host ctx (\<lambda>_ _ _ _ _. None) \<or> (\<exists>k. evm_host m ctx = make_host ctx (Run newFrontierInstructionSet ctx (evm_host k ctx)))"
    by (cases m) auto
  then obtain r where "evm_host m ctx = make_host ctx r" by blast
  then show ?case using 0 make_host_agree[of D "\<lambda>_ _ _ _ _. None" r ctx] by simp
next
  case (Suc n)
  obtain k where m: "m = Suc k" and "n \<le> k" using Suc.prems(1) by (cases m) auto
  have "agree (D + 1) (evm_host n ctx) (evm_host k ctx)" using Suc.IH[OF \<open>n \<le> k\<close>, of "D + 1"] Suc.prems(2) by simp
  moreover have "keeps_depth (evm_host n ctx)" "keeps_depth (evm_host k ctx)" by (simp_all add: evm_host_ok)
  ultimately have "runner_agree D (Run newFrontierInstructionSet ctx (evm_host n ctx)) (Run newFrontierInstructionSet ctx (evm_host k ctx))"
    using Run_agree unfolding runner_agree_def by metis
  then show ?case unfolding m evm_host.simps by (intro make_host_agree impI)
qed

end
