(* ===== verification/EVMProps.thy ===== *)
theory EVMProps
  imports EVMCall
begin

text \<open>
  What the interpreter and the calls guarantee: every run ends, gas only falls, the stack stays
  within its limit, the nesting bound of the model is never felt; and what they do not do: a serial
  run that meets \<open>CREATE\<close> cannot succeed, and four call instructions have no implementation.
\<close>

subsection \<open>The frames of a run\<close>

inductive reaches :: "'s Context \<Rightarrow> 's host \<Rightarrow> bool \<Rightarrow> bool \<times> 's frame \<Rightarrow> bool \<times> 's frame \<Rightarrow> bool"
  for ctx h isPar where
  reaches_start: "reaches ctx h isPar x x"
| reaches_step: "reaches ctx h isPar x (cp, fr) \<Longrightarrow>
    run_step newFrontierInstructionSet ctx h isPar cp fr = Some (Continue cp' fr') \<Longrightarrow>
    reaches ctx h isPar x (cp', fr')"

inductive_simps reaches_iff: "reaches ctx h isPar x y"

lemma step_bounds:
  assumes "run_step newFrontierInstructionSet ctx (evm_host n ctx) isPar cp fr = Some (Continue cp' fr')"
  shows "Gas (contract fr') \<le> Gas (contract fr) \<and> Code (contract fr') = Code (contract fr) \<and>
    (length (stack fr) \<le> StackLimit \<longrightarrow> length (stack fr') \<le> StackLimit)"
proof (rule evm.step_Continue[OF assms])
  fix fr3
  assume "fr' = fr3\<lparr>pc := pc fr3 + 1\<rparr>"
    "progress (newFrontierInstructionSet (GetOp (pc fr) (contract fr))) isPar cp fr None cp' fr3"
  then show ?thesis by (simp add: progress_def word_le_nat_alt)
qed

text \<open>
  C1. The interpreter terminates. Whatever the code, the input, the state and the gas, the loop of
  \<open>Run\<close> ends (with a result, an error or a panic): no contract keeps a node busy forever.
\<close>

theorem interpreter_terminates:
  "\<exists>r. run_loop newFrontierInstructionSet ctx (evm_host n ctx) isParallel True (start_frame inp c e) = Some r"
  by (rule evm.loop_returns) simp

text \<open>
  C8. On every frame that a run of \<open>Run\<close> reaches, the stack holds at most 1024 words, the contract
  runs the code it was started with, and its gas is at most the gas it was started with.
\<close>

theorem frames_within_limits:
  assumes "reaches ctx (evm_host n ctx) isParallel (True, start_frame inp c e) (cp, fr)"
  shows "length (stack fr) \<le> 1024 \<and> Code (contract fr) = Code c \<and> Gas (contract fr) \<le> Gas c"
proof -
  have "length (stack (snd y)) \<le> StackLimit \<and> Code (contract (snd y)) = Code c \<and> Gas (contract (snd y)) \<le> Gas c"
    if "reaches ctx (evm_host n ctx) isParallel x y" "x = (True, start_frame inp c e)" for x y
    using that
  proof (induction rule: reaches.induct)
    case (reaches_start x)
    then show ?case by (simp add: start_frame_def)
  next
    case (reaches_step x cp fr cp' fr')
    then show ?case using step_bounds[OF reaches_step(2)] by auto
  qed
  from this[OF assms refl] show ?thesis by (simp add: StackLimit_def)
qed

text \<open>
  C10. A call returns at most the gas it was given, and leaves the call depth as it found it; so do
  the code executed in place by \<open>CallCode\<close> and the creation of a contract.
\<close>

theorem calls_return_gas:
  "(host_Call (evm_host n ctx) caller' addr inp gas v isParallel e = Some ((ret, left, cp, err), e') \<longrightarrow>
      left \<le> gas \<and> depth e' = depth e) \<and>
   (host_CallCode (evm_host n ctx) caller' addr inp gas v isParallel e = Some ((ret, left, cp, err), e') \<longrightarrow>
      left \<le> gas \<and> depth e' = depth e) \<and>
   (host_Create (evm_host n ctx) caller' code gas v isParallel e = Some ((ret, addr', left, cp, err), e') \<longrightarrow>
      left \<le> gas \<and> depth e' = depth e)"
proof (intro conjI impI)
  have k: "keeps_depth (evm_host n ctx)" using evm_host_ok by blast
  show "left \<le> gas" "depth e' = depth e"
    if "host_Call (evm_host n ctx) caller' addr inp gas v isParallel e = Some ((ret, left, cp, err), e')"
    using evm.Call_gas[OF that] k that unfolding keeps_depth_def by force+
  show "left \<le> gas" "depth e' = depth e"
    if "host_CallCode (evm_host n ctx) caller' addr inp gas v isParallel e = Some ((ret, left, cp, err), e')"
    using evm.CallCode_gas[OF that] k that unfolding keeps_depth_def by force+
  show "left \<le> gas" "depth e' = depth e"
    if "host_Create (evm_host n ctx) caller' code gas v isParallel e = Some ((ret, addr', left, cp, err), e')"
    using evm.Create_gas[OF that] k that unfolding keeps_depth_def by force+
qed


subsection \<open>What does not work\<close>

text \<open>
  C22. \<open>DELEGATECALL\<close> and \<open>STATICCALL\<close>, and in a serial run \<open>CREATE2\<close>, are undefined in the instruction set
  that the interpreter selects, so they have no access list variant, which the loop calls
  nevertheless: instead of the error for an invalid instruction the node panics on the nil function.
\<close>

theorem missing_calls_panic:
  assumes "GetOp (pc fr) (contract fr) \<in> {DELEGATECALL, STATICCALL} \<and> (isParallel \<or> canParallel) \<or>
      GetOp (pc fr) (contract fr) = CREATE2 \<and> \<not> isParallel"
    and "length (stack fr) \<le> 1024"
  shows "run_step newFrontierInstructionSet ctx h isParallel canParallel fr = None"
proof -
  define op where "op = GetOp (pc fr) (contract fr)"
  have op: "op \<in> {DELEGATECALL, STATICCALL} \<and> (isParallel \<or> canParallel) \<or> op = CREATE2 \<and> \<not> isParallel"
    using assms(1) by (simp add: op_def)
  then have oper: "newFrontierInstructionSet op = undefined_operation"
    using frontier_calls(4-6) by blast
  have u: "min_stack undefined_operation = 0" "max_stack undefined_operation = 1024" "executeAL undefined_operation = None"
      "constantGas undefined_operation = 0" "dynamicGas undefined_operation = None"
    by (simp_all add: undefined_operation_def maxStack_def StackLimit_def)
  have k: "is_call DELEGATECALL" "is_call STATICCALL" "is_create CREATE2" "\<not> is_create DELEGATECALL" "\<not> is_create STATICCALL"
    by (simp_all add: is_call_def is_create_def CREATE_def CREATE2_def DELEGATECALL_def STATICCALL_def)
  have d: "dispatch undefined_operation op ctx h isParallel b f = None" if "op = CREATE2 \<or> isParallel \<or> b" for b f
    using op
  proof (elim disjE conjE insertE emptyE)
    assume "op = CREATE2" "\<not> isParallel"
    then show ?thesis using k by (simp add: dispatch_def u)
  qed (use that k in \<open>auto simp: dispatch_def u CREATE2_def DELEGATECALL_def STATICCALL_def\<close>)
  have b: "op = CREATE2 \<or> isParallel \<or> b" if "track_access op ctx isParallel canParallel f = Some (b, f')" for b f f'
    using that op by (cases isParallel) (auto simp: track_access_def Option.bind_eq_Some_conv)
  have t: "track_access op ctx isParallel canParallel f \<bind> (\<lambda>(b, f). dispatch undefined_operation op ctx h isParallel b f \<bind> k b) = None"
    for f k
  proof (cases "track_access op ctx isParallel canParallel f")
    case (Some bf)
    then show ?thesis using b[of f "fst bf" "snd bf"] d[of "fst bf" "snd bf"] by (simp add: split_beta)
  qed simp
  show ?thesis
    using assms(2) t[of "fr\<lparr>contract := (contract fr)\<lparr>Gas := Gas (contract fr)\<rparr>\<rparr>"]
    by (simp add: run_step_def op_def[symmetric] oper Let_def u charge_dynamic_def UseGas_def)
qed

lemma skipping_ends_in_error:
  assumes "run_loop newFrontierInstructionSet ctx h False False fr = Some (Some ((res, err, cp), fr'))"
  shows "res = [] \<and> err \<noteq> None"
proof -
  have step: "run_step newFrontierInstructionSet ctx h False b f = Some out \<Longrightarrow> \<not> b \<Longrightarrow>
      (\<forall>b' f'. out = Continue b' f' \<longrightarrow> \<not> b') \<and> (\<forall>r e b' f'. out = Return r e b' f' \<longrightarrow> r = [] \<and> e \<noteq> None)" for b f out
  proof (induction rule: run_step_cases)
    case (exec c fr1 cp2 fr2 r e cp3 fr3)
    have cp2: "\<not> cp2" using exec(5,8) by (auto simp: track_access_def Option.bind_eq_Some_conv)
    show ?case using exec(6)
    proof (cases rule: dispatch_cases)
      case create
      then have "e = None \<or> e = Some ErrWriteProtection \<and> r = []"
        by (auto simp: opCreate_def after_create_def Option.bind_eq_Some_conv Let_def split_beta split: if_splits)
      then show ?thesis using exec(7) create by (auto simp: clear_stop_def)
    qed (use exec(7) cp2 in auto)
  qed auto
  have "(\<lambda>(r, e, b) f. r = [] \<and> e \<noteq> None) (res, err, cp) fr'"
    by (rule loop_invariant[OF assms, where I = "\<lambda>b f. \<not> b"]) (use step in fastforce)+
  then show ?thesis by simp
qed

text \<open>
  C21. A serial run cannot succeed once it has executed \<open>CREATE\<close>: the flag that the creation clears
  makes the loop skip every later instruction, \<open>STOP\<close> and \<open>RETURN\<close> included, so the run ends, if it does
  not panic, with an error and without output.
\<close>

theorem serial_create_fails:
  assumes "GetOp (pc fr) (contract fr) = CREATE"
    and step: "run_step newFrontierInstructionSet ctx h False canParallel fr = Some (Continue cp' fr')"
    and loop: "run_loop newFrontierInstructionSet ctx h False canParallel fr = Some (Some ((res, err, cp), fr''))"
  shows "res = [] \<and> err \<noteq> None"
proof -
  have "\<not> cp'" using step
  proof (cases rule: run_step_cases)
    case (exec c fr1 cp2 fr2 r e cp3 fr3)
    show ?thesis using exec(6)
    proof (cases rule: dispatch_cases)
      case (plain f)
      then show ?thesis using assms(1) by (simp add: frontier_calls calling_def)
    qed (use exec(7) assms(1) in \<open>auto simp: CREATE_def CALL_def CALLCODE_def split: if_splits\<close>)
  qed simp
  then have "run_loop newFrontierInstructionSet ctx h False False fr' = Some (Some ((res, err, cp), fr''))"
    using loop step by (subst (asm) run_loop.simps) simp
  then show ?thesis by (rule skipping_ends_in_error)
qed

subsection \<open>A sample world\<close>

text \<open>
  The smallest implementation of the interface, for the concrete runs below: one account whose code
  is the state itself, no balances, no storage.
\<close>

definition sample_db :: "bytes StateDB" where
  "sample_db = \<lparr>CreateAccount = \<lambda>_ s. s, SubBalance = \<lambda>_ _ s. s, AddBalance = \<lambda>_ _ s. s,
     GetBalance = \<lambda>_ _. 0, GetNonce = \<lambda>_ _. 0, SetNonce = \<lambda>_ _ s. s,
     GetCodeHash = \<lambda>_ _. 0, GetCode = \<lambda>_ s. s, SetCode = \<lambda>_ _ s. s, GetCodeSize = \<lambda>_ s. length s,
     AddRefund = \<lambda>_ s. s, SubRefund = \<lambda>_ s. Some s, GetCommittedState = \<lambda>_ _ _. 0,
     GetState = \<lambda>_ _ _. 0, SetState = \<lambda>_ _ _ s. s, GetTransientState = \<lambda>_ _ _. 0,
     SetTransientState = \<lambda>_ _ _ s. s, SelfDestruct = \<lambda>_ s. s, HasSelfDestructed = \<lambda>_ _. False,
     Selfdestruct6780 = \<lambda>_ s. s, Exist = \<lambda>_ _. True, Empty = \<lambda>_ _. False,
     AddressInAccessList = \<lambda>_ _. False, SlotInAccessList = \<lambda>_ _ _. (False, False),
     AddAddressToAccessList = \<lambda>_ s. s, AddSlotToAccessList = \<lambda>_ _ s. s,
     RevertToSnapshot = \<lambda>_ s. Some s, Snapshot = \<lambda>s. (0, s), AddLog = \<lambda>_ s. s,
     AddPreimage = \<lambda>_ _ s. s, GetAccessList = \<lambda>_. NewAccessList\<rparr>"

definition sample_u256 :: uint256_lib where
  "sample_u256 = \<lparr>Div = \<lambda>x y. x div y, SDiv = \<lambda>x y. x div y, Mod = \<lambda>x y. x mod y, SMod = \<lambda>x y. x mod y,
     Exp = \<lambda>x y. x, ExtendSign = \<lambda>x y. x, AddMod = \<lambda>x y z. x + y, MulMod = \<lambda>x y z. x * y, Byte = \<lambda>x y. x, SRsh = \<lambda>x n. x\<rparr>"

definition sample_ctx :: "bytes Context" where
  "sample_ctx = \<lparr>sdb = sample_db, CanTransfer = \<lambda>_ _ _. True, Transfer = \<lambda>s _ _ _. s, GetHash = \<lambda>_. 0,
     Coinbase = 0, GasLimit = 0, BlockNumber = 0, Time = 0, BaseFee = 0, Random = None, Origin = 0, GasPrice = 0,
     BlobHashes = [], ChainID = 1, EnablePreimageRecording = False, precompile = \<lambda>_. None, u256lib = sample_u256,
     keccak256 = \<lambda>_. 0, CreateAddress = \<lambda>a _. a + 1, CreateAddress2 = \<lambda>a _ _. a + 1\<rparr>"

definition sample_evm :: "bytes \<Rightarrow> bytes EVM" where
  "sample_evm code = \<lparr>state = code, depth = 0, callGasTemp = 0, abort = False, readOnly = False, returnData = [],
     jumpdests = [], TrueAccessList = NewAccessList\<rparr>"

definition sample_frame :: "bytes \<Rightarrow> Stack \<Rightarrow> u64 \<Rightarrow> bytes frame" where
  "sample_frame code st gas =
     (start_frame [] (fst (NewContract (AccountRef 1) 2 (Some 0) gas []) \<lparr>Code := code\<rparr>) (sample_evm code))\<lparr>stack := st\<rparr>"

lemma run_step_entry:
  "run_step table ctx h isPar cp fr = run_step (\<lambda>_. table (GetOp (pc fr) (contract fr))) ctx h isPar cp fr"
  by (simp add: run_step_def)

lemma sample_entries:
  "newFrontierInstructionSet 0x01 = plain opAdd 3 2 1"
  "newFrontierInstructionSet 0xf0 = calling opCreate 32000 pureMemoryGascost memoryCreate 3 1"
  "newFrontierInstructionSet 0x58 = plain opPc 2 0 1"
  using frontier_calls(1) by (simp_all add: newFrontierInstructionSet_def frontier_entries_def frontier_arith_def frontier_env_def frontier_flow_def CREATE_def)

lemma sample_GetOp: "GetOp (pc (sample_frame (op # code) st gas)) (contract (sample_frame (op # code) st gas)) = op"
  by (simp add: sample_frame_def start_frame_def NewContract_def GetOp_def)

lemma sample_step:
  "run_step newFrontierInstructionSet ctx h isPar cp (sample_frame (op # code) st gas) =
   run_step (\<lambda>_. newFrontierInstructionSet op) ctx h isPar cp (sample_frame (op # code) st gas)"
  by (subst run_step_entry) (simp only: sample_GetOp)

text \<open>Adding 2 and 3, and the address of a contract created from no code.\<close>

lemma sample_add:
  "case run_step newFrontierInstructionSet sample_ctx (evm_host 1 sample_ctx) False True (sample_frame [0x01] [2, 3] 10) of
     Some (Continue cp fr) \<Rightarrow> cp \<and> stack fr = [5] \<and> Gas (contract fr) = 7 | _ \<Rightarrow> False"
  unfolding sample_step sample_entries by code_simp

lemma sample_create:
  "case run_step newFrontierInstructionSet sample_ctx (evm_host 1 sample_ctx) False True (sample_frame [0xf0, 0x01] [0, 0, 0] 40000) of
     Some (Continue cp fr) \<Rightarrow> \<not> cp \<and> stack fr = [3] \<and> GetOp (pc fr) (contract fr) = 1 | _ \<Rightarrow> False"
  unfolding sample_step sample_entries by code_simp

theorem frames_within_limits_witness:
  "\<exists>cp fr. reaches sample_ctx (evm_host 1 sample_ctx) False (True, sample_frame [0x58] [] 10) (cp, fr) \<and>
     stack fr = [0] \<and> length (stack fr) \<le> 1024 \<and> Gas (contract fr) \<le> 10"
proof -
  let ?c = "fst (NewContract (AccountRef 1) 2 (Some 0) 10 [])\<lparr>Code := [0x58]\<rparr>"
  have s: "sample_frame [0x58] [] 10 = start_frame [] ?c (sample_evm [0x58])"
    by (simp add: sample_frame_def start_frame_def)
  have "case run_step newFrontierInstructionSet sample_ctx (evm_host 1 sample_ctx) False True (sample_frame [0x58] [] 10) of
     Some (Continue cp fr) \<Rightarrow> stack fr = [0] | _ \<Rightarrow> False"
    unfolding sample_step sample_entries by code_simp
  then obtain cp fr where
      "run_step newFrontierInstructionSet sample_ctx (evm_host 1 sample_ctx) False True (sample_frame [0x58] [] 10) = Some (Continue cp fr)"
      "stack fr = [0]"
    by (auto split: option.splits outcome.splits)
  then have r: "reaches sample_ctx (evm_host 1 sample_ctx) False (True, sample_frame [0x58] [] 10) (cp, fr)"
    by (meson reaches.intros)
  then show ?thesis
    using frames_within_limits[of sample_ctx 1 False "[]" ?c "sample_evm [0x58]" cp fr] \<open>stack fr = [0]\<close>
    unfolding s by (force simp: NewContract_def)
qed

theorem calls_return_gas_witness:
  "host_Call (evm_host 1 sample_ctx) (AccountRef 1) 2 [] 10 0 False (sample_evm []) = Some (([], 10, True, None), sample_evm []) \<and>
   (10 :: u64) \<le> 10 \<and> depth (sample_evm []) = 0"
proof -
  have r: "host_Call (evm_host 1 sample_ctx) (AccountRef 1) 2 [] 10 0 False (sample_evm []) = Some (([], 10, True, None), sample_evm [])"
    by (simp add: make_host_def Call_def sample_ctx_def sample_db_def sample_evm_def take_snapshot_def upd_state_def CallCreateDepth_def)
  then show ?thesis
    using calls_return_gas[of 1 sample_ctx "AccountRef 1" 2 "[]" 10 0 False "sample_evm []" "[]" 10 True None "sample_evm []"]
    by (simp add: sample_evm_def)
qed


theorem missing_calls_panic_witness:
  "run_step newFrontierInstructionSet sample_ctx (evm_host 1 sample_ctx) True True (sample_frame [0xf4] [] 5) = None"
  by (rule missing_calls_panic) (simp_all add: sample_GetOp DELEGATECALL_def, simp add: sample_frame_def)

theorem serial_create_fails_witness:
  "\<exists>res err cp fr'. run_loop newFrontierInstructionSet sample_ctx (evm_host 1 sample_ctx) False True (sample_frame [0xf0, 0x01] [0, 0, 0] 40000)
     = Some (Some ((res, err, cp), fr')) \<and> err = Some (ErrStackUnderflow 1 2) \<and> res = [] \<and> err \<noteq> None"
proof -
  let ?run = "\<lambda>cp fr. run_loop newFrontierInstructionSet sample_ctx (evm_host 1 sample_ctx) False cp fr"
  let ?fr = "sample_frame [0xf0, 0x01] [0, 0, 0] 40000"
  obtain cp fr where step: "run_step newFrontierInstructionSet sample_ctx (evm_host 1 sample_ctx) False True ?fr = Some (Continue cp fr)"
      and st: "stack fr = [3]" "GetOp (pc fr) (contract fr) = 1"
    using sample_create by (auto split: option.splits outcome.splits)
  have "run_step newFrontierInstructionSet sample_ctx (evm_host 1 sample_ctx) False cp fr =
      Some (Return [] (Some (ErrStackUnderflow 1 2)) True fr)"
    using st by (simp add: run_step_def sample_entries(1)[simplified] plain_def minStack_def)
  then have l: "?run cp fr = Some (Some (([], Some (ErrStackUnderflow 1 2), True), fr))" by (subst run_loop.simps) simp
  have loop: "?run True ?fr = Some (Some (([], Some (ErrStackUnderflow 1 2), True), fr))"
    by (subst run_loop.simps) (simp only: step l option.case outcome.case)
  have "([] :: bytes) = [] \<and> Some (ErrStackUnderflow 1 2) \<noteq> None"
    by (rule serial_create_fails[OF _ step loop]) (simp add: sample_GetOp CREATE_def)
  then show ?thesis using loop by blast
qed

end
