(* ===== verification/Spec2Isabelle.thy ===== *)
theory Spec2Isabelle
  imports AVLTree PoolOps Opcodes EVMFacts EVMProps
begin

text \<open>
  Pangu: the transaction pool, access lists, state and execution of a parallel EVM chain.
\<close>

end
